theory Spec2Isabelle
  imports Main "HOL-Library.Sublist"
begin

section \<open>Data model of server.js\<close>

text \<open>
  A listing is the object built by the three scrapers
  (\<^verbatim>\<open>{id, title, thumbnail, author, source, url, likes, downloads}\<close>).
  The field \<^verbatim>\<open>id\<close> is called \<open>listing_id\<close> here, since \<open>id\<close> is the identity
  function of HOL.
\<close>

record listing =
  listing_id :: string
  title :: string
  thumbnail :: string
  author :: string
  source :: string
  url :: string
  likes :: nat
  downloads :: nat

text \<open>
  What \<^verbatim>\<open>page.evaluate\<close> hands back for one card of a result page:
  \<^verbatim>\<open>{title, link, thumbnail, author, likes, downloads}\<close>.
\<close>

record raw_item =
  item_title :: string
  item_link :: string
  item_thumbnail :: string
  item_author :: string
  item_likes :: nat
  item_downloads :: nat

text \<open>
  One run of a scraper against its site. Everything the browser does is the environment:
  either some step inside the \<^verbatim>\<open>try\<close> block throws (a navigation timeout, a
  blocked request, a crashed browser), or the page loads with a title and
  \<^verbatim>\<open>page.evaluate\<close> returns a list of raw items. \<open>close_throws\<close> says that the page
  was opened and that \<^verbatim>\<open>page.close()\<close> in the \<^verbatim>\<open>finally\<close> block throws, which
  rejects the promise of the scraper.
\<close>

datatype page_run = Threw | Loaded string "raw_item list"

record site =
  run :: page_run
  close_throws :: bool

text \<open>The result of \<^verbatim>\<open>Promise.allSettled\<close> for one promise.\<close>

datatype 'a settled = Fulfilled 'a | Rejected

text \<open>\<^verbatim>\<open>s.includes(sub)\<close> of JavaScript strings.\<close>

fun str_includes :: "string \<Rightarrow> string \<Rightarrow> bool" where
  "str_includes [] sub = (sub = [])"
| "str_includes (c # cs) sub = (prefix sub (c # cs) \<or> str_includes cs sub)"

text \<open>The \<^verbatim>\<open>sources\<close> object \<^verbatim>\<open>{thingiverse, printables, makerworld}\<close>.\<close>

record counts =
  thingiverse :: nat
  printables :: nat
  makerworld :: nat

text \<open>
  The object sent with \<^verbatim>\<open>res.json\<close>. A freshly built response has the four keys
  \<^verbatim>\<open>query, total, results, sources\<close>; the object returned by
  \<^verbatim>\<open>getCachedSearch\<close> has \<^verbatim>\<open>cached: true\<close> and \<^verbatim>\<open>cached_at\<close> in addition.
  The absence of the two keys is \<open>cached = False\<close> and \<open>cached_at = None\<close>.
\<close>

record envelope =
  query :: string
  total :: nat
  results :: "listing list"
  sources :: counts
  cached :: bool
  cached_at :: "nat option"

datatype reply = Json envelope | Error nat string

text \<open>
  A row of the table \<^verbatim>\<open>searches\<close>. The column \<^verbatim>\<open>query\<close> is \<^verbatim>\<open>UNIQUE\<close> and is
  the key of the map below; the columns \<^verbatim>\<open>results\<close> and \<^verbatim>\<open>sources\<close> hold JSON
  text, which \<^verbatim>\<open>JSON.parse\<close> reads back as the value \<^verbatim>\<open>JSON.stringify\<close> wrote, so
  the row holds the values. Times are seconds.
\<close>

record row =
  row_results :: "listing list"
  row_sources :: counts
  created_at :: nat
  updated_at :: nat

type_synonym database = "string \<rightharpoonup> row"

text \<open>
  The memory cache \<^verbatim>\<open>new NodeCache({ stdTTL: 3600 })\<close>: a value with the time at
  which it expires.
\<close>

type_synonym node_cache = "string \<rightharpoonup> envelope \<times> nat"

record state =
  db :: database
  cache :: node_cache

text \<open>
  What one request meets: the clock, what each site does for a query, and whether the
  SQLite statements throw (both helpers catch that).
\<close>

record env =
  now :: nat
  thingiverse_web :: "string \<Rightarrow> site"
  printables_web :: "string \<Rightarrow> site"
  makerworld_web :: "string \<Rightarrow> site"
  db_read_throws :: bool
  db_write_throws :: bool

text \<open>
  The effects of a request, in the order in which they happen: the calls of
  \<^verbatim>\<open>getCachedSearch\<close>, \<^verbatim>\<open>cache.get\<close>, a scraper, \<^verbatim>\<open>cache.set\<close> and
  \<^verbatim>\<open>cacheSearch\<close>, each with the query or cache key it is called with.
\<close>

datatype adapter = Thingiverse | Printables | MakerWorld

datatype event =
    DbGet string
  | CacheGet string
  | Invoke adapter string
  | CacheSet string
  | DbPut string

section \<open>The scrapers\<close>

text \<open>
  \<^verbatim>\<open>item.likes || 0\<close> on a number: \<open>0\<close> when the number is \<open>0\<close>, the number otherwise.
\<close>

definition or_zero :: "nat \<Rightarrow> nat" where
  "or_zero n = (if n = 0 then 0 else n)"

definition searchThingiverse :: "(string \<Rightarrow> site) \<Rightarrow> string \<Rightarrow> listing list settled" where
  "searchThingiverse web q =
     (if close_throws (web q) then Rejected
      else Fulfilled
        (case run (web q) of
           Threw \<Rightarrow> []
         | Loaded pageTitle items \<Rightarrow>
             if str_includes pageTitle ''Just a moment'' \<or> str_includes pageTitle ''Error'' then []
             else map (\<lambda>item.
                   \<lparr>listing_id = ''thingiverse_'' @ item_link item,
                    title = item_title item,
                    thumbnail = item_thumbnail item,
                    author = item_author item,
                    source = ''thingiverse'',
                    url = item_link item,
                    likes = or_zero (item_likes item),
                    downloads = or_zero (item_downloads item)\<rparr>) items))"

definition searchPrintables :: "(string \<Rightarrow> site) \<Rightarrow> string \<Rightarrow> listing list settled" where
  "searchPrintables web q =
     (if close_throws (web q) then Rejected
      else Fulfilled
        (case run (web q) of
           Threw \<Rightarrow> []
         | Loaded pageTitle items \<Rightarrow>
             map (\<lambda>item.
                   \<lparr>listing_id = ''printables_'' @ item_link item,
                    title = item_title item,
                    thumbnail = item_thumbnail item,
                    author = item_author item,
                    source = ''printables'',
                    url = item_link item,
                    likes = or_zero (item_likes item),
                    downloads = or_zero (item_downloads item)\<rparr>) items))"

definition searchMakerWorld :: "(string \<Rightarrow> site) \<Rightarrow> string \<Rightarrow> listing list settled" where
  "searchMakerWorld web q =
     (if close_throws (web q) then Rejected
      else Fulfilled
        (case run (web q) of
           Threw \<Rightarrow> []
         | Loaded pageTitle items \<Rightarrow>
             map (\<lambda>item.
                   \<lparr>listing_id = ''makerworld_'' @ item_link item,
                    title = item_title item,
                    thumbnail = item_thumbnail item,
                    author = item_author item,
                    source = ''makerworld'',
                    url = item_link item,
                    likes = or_zero (item_likes item),
                    downloads = or_zero (item_downloads item)\<rparr>) items))"

section \<open>The two caches\<close>

definition getCachedSearch :: "bool \<Rightarrow> database \<Rightarrow> string \<Rightarrow> envelope option" where
  "getCachedSearch throws d q =
     (if throws then None
      else case d q of
          Some r \<Rightarrow>
            Some \<lparr>query = q,
                  total = length (row_results r),
                  results = row_results r,
                  sources = row_sources r,
                  cached = True,
                  cached_at = Some (updated_at r)\<rparr>
        | None \<Rightarrow> None)"

text \<open>
  \<^verbatim>\<open>INSERT ... ON CONFLICT(query) DO UPDATE SET results, sources, updated_at\<close>:
  a new row, or the old row with three columns replaced.
\<close>

definition cacheSearch ::
    "bool \<Rightarrow> nat \<Rightarrow> database \<Rightarrow> string \<Rightarrow> listing list \<Rightarrow> counts \<Rightarrow> database" where
  "cacheSearch throws t d q rs srcs =
     (if throws then d
      else d(q \<mapsto>
        (case d q of
           None \<Rightarrow> \<lparr>row_results = rs, row_sources = srcs, created_at = t, updated_at = t\<rparr>
         | Some old \<Rightarrow> old\<lparr>row_results := rs, row_sources := srcs, updated_at := t\<rparr>)))"

text \<open>
  \<^verbatim>\<open>DELETE FROM searches WHERE updated_at < datetime('now', '-7 days')\<close>, run once
  when the process starts.
\<close>

definition cleanOldSearches :: "nat \<Rightarrow> database \<Rightarrow> database" where
  "cleanOldSearches t d =
     (\<lambda>q. case d q of
        None \<Rightarrow> None
      | Some r \<Rightarrow> if updated_at r + 7 * 86400 < t then None else Some r)"

text \<open>
  \<^verbatim>\<open>cache.get\<close> and \<^verbatim>\<open>cache.set\<close> of node-cache with \<^verbatim>\<open>stdTTL: 3600\<close>: an entry
  is returned until its expiry time has passed.
\<close>

definition cache_get :: "nat \<Rightarrow> node_cache \<Rightarrow> string \<Rightarrow> envelope option" where
  "cache_get t c k =
     (case c k of
        None \<Rightarrow> None
      | Some (v, expiry) \<Rightarrow> if expiry < t then None else Some v)"

definition cache_set :: "nat \<Rightarrow> node_cache \<Rightarrow> string \<Rightarrow> envelope \<Rightarrow> node_cache" where
  "cache_set t c k v = c(k \<mapsto> (v, t + 3600))"

section \<open>The handler of /api/search\<close>

text \<open>\<^verbatim>\<open>const cacheKey = `search_${query}`\<close>\<close>

definition cacheKey :: "string \<Rightarrow> string" where
  "cacheKey q = ''search_'' @ q"

text \<open>\<^verbatim>\<open>p.status === 'fulfilled' ? p.value : []\<close>\<close>

definition fulfilled_or_empty :: "'a list settled \<Rightarrow> 'a list" where
  "fulfilled_or_empty p = (case p of Fulfilled v \<Rightarrow> v | Rejected \<Rightarrow> [])"

definition needsRefresh :: "envelope \<Rightarrow> bool" where
  "needsRefresh dbCached =
     (thingiverse (sources dbCached) = 0 \<or>
      printables (sources dbCached) = 0 \<or>
      makerworld (sources dbCached) = 0)"

text \<open>
  The object literal \<^verbatim>\<open>response\<close>, written twice in the handler (partial refresh and
  full search) with the same text.
\<close>

definition build_response ::
    "string \<Rightarrow> listing list \<Rightarrow> listing list \<Rightarrow> listing list \<Rightarrow> envelope" where
  "build_response q thingiverseResults printablesResults makerworldResults =
     \<lparr>query = q,
      total = length (thingiverseResults @ printablesResults @ makerworldResults),
      results = thingiverseResults @ printablesResults @ makerworldResults,
      sources = \<lparr>thingiverse = length thingiverseResults,
                 printables = length printablesResults,
                 makerworld = length makerworldResults\<rparr>,
      cached = False,
      cached_at = None\<rparr>"

text \<open>
  \<^verbatim>\<open>cache.set(`search_${query}`, response); cacheSearch(query, allResults, response.sources)\<close>
\<close>

definition store :: "env \<Rightarrow> state \<Rightarrow> string \<Rightarrow> envelope \<Rightarrow> state" where
  "store e st q response =
     st\<lparr>cache := cache_set (now e) (cache st) (cacheKey q) response,
        db := cacheSearch (db_write_throws e) (now e) (db st) q
                (results response) (sources response)\<rparr>"

text \<open>The branch \<^verbatim>\<open>if (needsRefresh)\<close>: only the platforms with a count of 0 are searched.\<close>

definition partial_refresh ::
    "env \<Rightarrow> state \<Rightarrow> string \<Rightarrow> envelope \<Rightarrow> reply \<times> state \<times> event list" where
  "partial_refresh e st q dbCached =
     (let p0 = (if thingiverse (sources dbCached) = 0
                then searchThingiverse (thingiverse_web e) q
                else Fulfilled (filter (\<lambda>r. source r = ''thingiverse'') (results dbCached)));
          p1 = (if printables (sources dbCached) = 0
                then searchPrintables (printables_web e) q
                else Fulfilled (filter (\<lambda>r. source r = ''printables'') (results dbCached)));
          p2 = (if makerworld (sources dbCached) = 0
                then searchMakerWorld (makerworld_web e) q
                else Fulfilled (filter (\<lambda>r. source r = ''makerworld'') (results dbCached)));
          response = build_response q
                       (fulfilled_or_empty p0) (fulfilled_or_empty p1) (fulfilled_or_empty p2)
      in (Json response,
          store e st q response,
          [DbGet q]
          @ (if thingiverse (sources dbCached) = 0 then [Invoke Thingiverse q] else [])
          @ (if printables (sources dbCached) = 0 then [Invoke Printables q] else [])
          @ (if makerworld (sources dbCached) = 0 then [Invoke MakerWorld q] else [])
          @ [CacheSet (cacheKey q), DbPut q]))"

text \<open>
  The last block of the handler: all three platforms are searched. Nothing inside its
  \<^verbatim>\<open>try\<close> throws: \<^verbatim>\<open>Promise.allSettled\<close> never rejects and \<^verbatim>\<open>cacheSearch\<close>
  catches its own errors, so the \<^verbatim>\<open>catch\<close> with status 500 has no branch here.
\<close>

definition full_search :: "env \<Rightarrow> state \<Rightarrow> string \<Rightarrow> reply \<times> state \<times> event list" where
  "full_search e st q =
     (let response = build_response q
                       (fulfilled_or_empty (searchThingiverse (thingiverse_web e) q))
                       (fulfilled_or_empty (searchPrintables (printables_web e) q))
                       (fulfilled_or_empty (searchMakerWorld (makerworld_web e) q))
      in (Json response,
          store e st q response,
          [DbGet q, CacheGet (cacheKey q),
           Invoke Thingiverse q, Invoke Printables q, Invoke MakerWorld q,
           CacheSet (cacheKey q), DbPut q]))"

text \<open>
  \<^verbatim>\<open>app.get('/api/search', ...)\<close>. The parameter \<^verbatim>\<open>q\<close> is absent or a string
  (a repeated parameter, which Express hands over as an array, is not modelled);
  \<^verbatim>\<open>!query\<close> holds for the absent and for the empty string. The text is used as it
  arrives: no statement of the handler changes it.
\<close>

definition api_search :: "env \<Rightarrow> state \<Rightarrow> string option \<Rightarrow> reply \<times> state \<times> event list" where
  "api_search e st req_q =
     (case req_q of
        None \<Rightarrow> (Error 400 ''Query parameter required'', st, [])
      | Some q \<Rightarrow>
          if q = [] then (Error 400 ''Query parameter required'', st, [])
          else
            (case getCachedSearch (db_read_throws e) (db st) q of
               Some dbCached \<Rightarrow>
                 if needsRefresh dbCached then partial_refresh e st q dbCached
                 else (Json dbCached, st, [DbGet q])
             | None \<Rightarrow>
                 (case cache_get (now e) (cache st) (cacheKey q) of
                    Some hit \<Rightarrow> (Json hit, st, [DbGet q, CacheGet (cacheKey q)])
                  | None \<Rightarrow> full_search e st q)))"

section \<open>The handler at its suspension point\<close>

text \<open>
  The handler is an \<^verbatim>\<open>async\<close> function with one suspension point, the
  \<^verbatim>\<open>await Promise.allSettled(...)\<close>: everything before it runs without
  interruption when the request arrives (the cache reads and the calls of the scrapers),
  everything after it runs when the promises have settled (building the response and
  the two cache writes). Between the two, the handlers of other requests run.

  A slot is one element of \<^verbatim>\<open>searchPromises\<close>: the promise of a scraper that was
  called, or \<^verbatim>\<open>Promise.resolve\<close> of the listings carried over from the row.
\<close>

datatype slot = Search | Carried "listing list"

datatype pending = Pending string slot slot slot

definition settle :: "listing list settled \<Rightarrow> slot \<Rightarrow> listing list" where
  "settle p s = (case s of Search \<Rightarrow> fulfilled_or_empty p | Carried rs \<Rightarrow> rs)"

definition api_search_begin ::
    "env \<Rightarrow> state \<Rightarrow> string option \<Rightarrow> (reply + pending) \<times> event list" where
  "api_search_begin e st req_q =
     (case req_q of
        None \<Rightarrow> (Inl (Error 400 ''Query parameter required''), [])
      | Some q \<Rightarrow>
          if q = [] then (Inl (Error 400 ''Query parameter required''), [])
          else
            (case getCachedSearch (db_read_throws e) (db st) q of
               Some dbCached \<Rightarrow>
                 if needsRefresh dbCached then
                   (Inr (Pending q
                      (if thingiverse (sources dbCached) = 0 then Search
                       else Carried (filter (\<lambda>r. source r = ''thingiverse'') (results dbCached)))
                      (if printables (sources dbCached) = 0 then Search
                       else Carried (filter (\<lambda>r. source r = ''printables'') (results dbCached)))
                      (if makerworld (sources dbCached) = 0 then Search
                       else Carried (filter (\<lambda>r. source r = ''makerworld'') (results dbCached)))),
                    [DbGet q]
                    @ (if thingiverse (sources dbCached) = 0 then [Invoke Thingiverse q] else [])
                    @ (if printables (sources dbCached) = 0 then [Invoke Printables q] else [])
                    @ (if makerworld (sources dbCached) = 0 then [Invoke MakerWorld q] else []))
                 else (Inl (Json dbCached), [DbGet q])
             | None \<Rightarrow>
                 (case cache_get (now e) (cache st) (cacheKey q) of
                    Some hit \<Rightarrow> (Inl (Json hit), [DbGet q, CacheGet (cacheKey q)])
                  | None \<Rightarrow>
                      (Inr (Pending q Search Search Search),
                       [DbGet q, CacheGet (cacheKey q),
                        Invoke Thingiverse q, Invoke Printables q, Invoke MakerWorld q]))))"

text \<open>
  The rest of the handler. Its environment is the one at the time the promises settle: it
  says what the scrapers that were called have met.
\<close>

fun api_search_resume :: "env \<Rightarrow> state \<Rightarrow> pending \<Rightarrow> reply \<times> state \<times> event list" where
  "api_search_resume e st (Pending q s0 s1 s2) =
     (let response = build_response q
                       (settle (searchThingiverse (thingiverse_web e) q) s0)
                       (settle (searchPrintables (printables_web e) q) s1)
                       (settle (searchMakerWorld (makerworld_web e) q) s2)
      in (Json response, store e st q response, [CacheSet (cacheKey q), DbPut q]))"

text \<open>
  The server with several requests in flight: a request arrives (its handler runs up to
  the suspension point), the promises of a waiting request settle (its handler runs to
  the end), or the process is restarted at some time (the rows older than seven days are
  deleted, the memory cache is new and the requests in flight are lost). Requests are
  numbered by the caller.
\<close>

record server =
  srv_state :: state
  waiting :: "(nat \<times> pending) list"
  replies :: "(nat \<times> reply) list"
  effects :: "event list"

datatype action = Arrive nat env "string option" | Settle nat env | Restart nat

fun step :: "action \<Rightarrow> server \<Rightarrow> server" where
  "step (Arrive i e req_q) s =
     (case api_search_begin e (srv_state s) req_q of
        (Inl r, evs) \<Rightarrow> s\<lparr>replies := replies s @ [(i, r)], effects := effects s @ evs\<rparr>
      | (Inr p, evs) \<Rightarrow> s\<lparr>waiting := waiting s @ [(i, p)], effects := effects s @ evs\<rparr>)"
| "step (Settle i e) s =
     (case map_of (waiting s) i of
        None \<Rightarrow> s
      | Some p \<Rightarrow>
          (case api_search_resume e (srv_state s) p of
             (r, st', evs) \<Rightarrow>
               s\<lparr>srv_state := st',
                 waiting := filter (\<lambda>w. fst w \<noteq> i) (waiting s),
                 replies := replies s @ [(i, r)],
                 effects := effects s @ evs\<rparr>))"
| "step (Restart t) s =
     s\<lparr>srv_state := \<lparr>db = cleanOldSearches t (db (srv_state s)), cache = Map.empty\<rparr>,
       waiting := []\<rparr>"

definition run_actions :: "action list \<Rightarrow> server \<Rightarrow> server" where
  "run_actions acts s = fold step acts s"

text \<open>The first start: an empty table, an empty memory cache, no request.\<close>

definition state0 :: state where
  "state0 = \<lparr>db = Map.empty, cache = Map.empty\<rparr>"

definition server0 :: server where
  "server0 = \<lparr>srv_state = state0, waiting = [], replies = [], effects = []\<rparr>"

text \<open>Requests \<open>i, i + 1, ...\<close> for the same query arriving one after the other.\<close>

fun arrivals :: "nat \<Rightarrow> env list \<Rightarrow> string \<Rightarrow> action list" where
  "arrivals i [] q = []"
| "arrivals i (e # es) q = Arrive i e (Some q) # arrivals (Suc i) es q"

section \<open>Reading responses and effects by platform\<close>

fun tag :: "adapter \<Rightarrow> string" where
  "tag Thingiverse = ''thingiverse''"
| "tag Printables = ''printables''"
| "tag MakerWorld = ''makerworld''"

fun count_of :: "counts \<Rightarrow> adapter \<Rightarrow> nat" where
  "count_of c Thingiverse = thingiverse c"
| "count_of c Printables = printables c"
| "count_of c MakerWorld = makerworld c"

definition listings_of :: "adapter \<Rightarrow> listing list \<Rightarrow> listing list" where
  "listings_of a rs = filter (\<lambda>r. source r = tag a) rs"

fun search :: "env \<Rightarrow> adapter \<Rightarrow> string \<Rightarrow> listing list settled" where
  "search e Thingiverse q = searchThingiverse (thingiverse_web e) q"
| "search e Printables q = searchPrintables (printables_web e) q"
| "search e MakerWorld q = searchMakerWorld (makerworld_web e) q"

text \<open>What the handler takes from a scraper it called: a rejected promise counts as \<open>[]\<close>.\<close>

definition fetched :: "env \<Rightarrow> adapter \<Rightarrow> string \<Rightarrow> listing list" where
  "fetched e a q = fulfilled_or_empty (search e a q)"

text \<open>The scrapers called by a request, in the order of the calls.\<close>

fun invoked :: "event list \<Rightarrow> adapter list" where
  "invoked [] = []"
| "invoked (Invoke a q # evs) = a # invoked evs"
| "invoked (ev # evs) = invoked evs"

fun web_of :: "env \<Rightarrow> adapter \<Rightarrow> string \<Rightarrow> site" where
  "web_of e Thingiverse = thingiverse_web e"
| "web_of e Printables = printables_web e"
| "web_of e MakerWorld = makerworld_web e"

text \<open>
  A scraper fails when a step of its \<^verbatim>\<open>try\<close> block throws (which includes the
  navigation timeout of \<^verbatim>\<open>page.goto\<close>) or when closing the page throws.
\<close>

definition fails :: "site \<Rightarrow> bool" where
  "fails s = (run s = Threw \<or> close_throws s)"

text \<open>Each element of \<open>searchPromises\<close> in the partial refresh, by platform.\<close>

definition refreshed :: "env \<Rightarrow> envelope \<Rightarrow> adapter \<Rightarrow> string \<Rightarrow> listing list" where
  "refreshed e c a q =
     (if count_of (sources c) a = 0 then fetched e a q else listings_of a (results c))"

text \<open>
  An effect of a request for the text \<open>q\<close>: the table and the scrapers are called with
  \<open>q\<close> itself, the memory cache with \<open>cacheKey q\<close>.
\<close>

fun effect_of :: "string \<Rightarrow> event \<Rightarrow> bool" where
  "effect_of q (DbGet x) = (x = q)"
| "effect_of q (CacheGet k) = (k = cacheKey q)"
| "effect_of q (Invoke a x) = (x = q)"
| "effect_of q (CacheSet k) = (k = cacheKey q)"
| "effect_of q (DbPut x) = (x = q)"

text \<open>The response of a search in which no platform delivered a listing.\<close>

definition no_results :: "string \<Rightarrow> envelope" where
  "no_results q =
     \<lparr>query = q, total = 0, results = [],
      sources = \<lparr>thingiverse = 0, printables = 0, makerworld = 0\<rparr>,
      cached = False, cached_at = None\<rparr>"

section \<open>The invariant of stored records\<close>

definition counts_exact :: "listing list \<Rightarrow> counts \<Rightarrow> bool" where
  "counts_exact rs c =
     (thingiverse c = length (filter (\<lambda>r. source r = ''thingiverse'') rs) \<and>
      printables c = length (filter (\<lambda>r. source r = ''printables'') rs) \<and>
      makerworld c = length (filter (\<lambda>r. source r = ''makerworld'') rs))"

definition envelope_ok :: "envelope \<Rightarrow> bool" where
  "envelope_ok r = (total r = length (results r) \<and> counts_exact (results r) (sources r))"

definition state_ok :: "state \<Rightarrow> bool" where
  "state_ok st =
     ((\<forall>q r. db st q = Some r \<longrightarrow> counts_exact (row_results r) (row_sources r)) \<and>
      (\<forall>k v t. cache st k = Some (v, t) \<longrightarrow> envelope_ok v))"

text \<open>
  A waiting request carries listings of the right platform in each slot, and a reply that
  is a response has exact counts.
\<close>

fun slot_ok :: "string \<Rightarrow> slot \<Rightarrow> bool" where
  "slot_ok t Search = True"
| "slot_ok t (Carried rs) = list_all (\<lambda>r. source r = t) rs"

fun pending_ok :: "pending \<Rightarrow> bool" where
  "pending_ok (Pending q s0 s1 s2) =
     (slot_ok ''thingiverse'' s0 \<and> slot_ok ''printables'' s1 \<and> slot_ok ''makerworld'' s2)"

fun reply_ok :: "reply \<Rightarrow> bool" where
  "reply_ok (Json v) = envelope_ok v"
| "reply_ok (Error code msg) = True"

definition server_ok :: "server \<Rightarrow> bool" where
  "server_ok s =
     (state_ok (srv_state s) \<and>
      list_all (\<lambda>w. pending_ok (snd w)) (waiting s) \<and>
      list_all (\<lambda>w. reply_ok (snd w)) (replies s))"

text \<open>
  The servers that can be reached from the first start: by requests that arrive and
  settle in any order, and by restarts.
\<close>

inductive reachable :: "server \<Rightarrow> bool" where
  first_start: "reachable server0"
| after_step: "reachable s \<Longrightarrow> reachable (step a s)"

section \<open>The normalization the specification describes\<close>

text \<open>
  The specification calls the cache key the normalized query: the search text
  ``case-folded, whitespace-trimmed''. \<open>spec_normalizedQuery\<close> follows these words (ASCII
  letters, and the white space characters space, tab, line feed and carriage return); it
  is not a function of server.js.
\<close>

definition is_space :: "char \<Rightarrow> bool" where
  "is_space c = (c = CHR '' '' \<or> c = CHR 0x09 \<or> c = CHR 0x0A \<or> c = CHR 0x0D)"

definition lower_char :: "char \<Rightarrow> char" where
  "lower_char c =
     (case map_of (zip ''ABCDEFGHIJKLMNOPQRSTUVWXYZ'' ''abcdefghijklmnopqrstuvwxyz'') c of
        Some l \<Rightarrow> l
      | None \<Rightarrow> c)"

definition trim :: "string \<Rightarrow> string" where
  "trim s = rev (dropWhile is_space (rev (dropWhile is_space s)))"

definition spec_normalizedQuery :: "string \<Rightarrow> string" where
  "spec_normalizedQuery s = map lower_char (trim s)"

definition whitespace_only :: "string \<Rightarrow> bool" where
  "whitespace_only s = (s \<noteq> [] \<and> list_all is_space s)"

section \<open>Concrete inputs\<close>

text \<open>
  A site that answers every query with two cards, and a site whose page load throws.
\<close>

definition card :: "string \<Rightarrow> raw_item" where
  "card l =
     \<lparr>item_title = ''Stand'', item_link = l, item_thumbnail = [],
      item_author = ''Unknown'', item_likes = 7, item_downloads = 0\<rparr>"

definition site_up :: "string \<Rightarrow> string \<Rightarrow> site" where
  "site_up l q =
     \<lparr>run = Loaded ''Search'' [card (l @ ''/1''), card (l @ ''/2'')], close_throws = False\<rparr>"

definition site_down :: "string \<Rightarrow> site" where
  "site_down q = \<lparr>run = Threw, close_throws = False\<rparr>"

text \<open>
  A Thingiverse page that is a challenge page, and a page without a card.
\<close>

definition site_blocked :: "string \<Rightarrow> site" where
  "site_blocked q =
     \<lparr>run = Loaded ''Just a moment...'' [card ''t/1''], close_throws = False\<rparr>"

definition site_no_match :: "string \<Rightarrow> site" where
  "site_no_match q = \<lparr>run = Loaded ''Search'' [], close_throws = False\<rparr>"

text \<open>
  Environments at time \<open>t\<close>: all three sites up and the table working; Printables down;
  all three down; all three down and the write to the table throwing; Thingiverse
  blocked, Printables without a match and the promise of the MakerWorld scraper rejected;
  the promise of the MakerWorld scraper rejected; the read of the table throwing.
\<close>

definition env_up :: "nat \<Rightarrow> env" where
  "env_up t =
     \<lparr>now = t,
      thingiverse_web = site_up ''t'',
      printables_web = site_up ''p'',
      makerworld_web = site_up ''m'',
      db_read_throws = False,
      db_write_throws = False\<rparr>"

definition env_printables_down :: "nat \<Rightarrow> env" where
  "env_printables_down t = (env_up t)\<lparr>printables_web := site_down\<rparr>"

definition env_all_down :: "nat \<Rightarrow> env" where
  "env_all_down t =
     (env_up t)\<lparr>thingiverse_web := site_down, printables_web := site_down,
       makerworld_web := site_down\<rparr>"

definition env_write_throws :: "nat \<Rightarrow> env" where
  "env_write_throws t = (env_all_down t)\<lparr>db_write_throws := True\<rparr>"

definition env_nothing :: "nat \<Rightarrow> env" where
  "env_nothing t =
     (env_up t)\<lparr>thingiverse_web := site_blocked, printables_web := site_no_match,
       makerworld_web := (\<lambda>q. \<lparr>run = Threw, close_throws = True\<rparr>)\<rparr>"

definition env_makerworld_rejects :: "nat \<Rightarrow> env" where
  "env_makerworld_rejects t =
     (env_up t)\<lparr>makerworld_web := (\<lambda>q. \<lparr>run = Threw, close_throws = True\<rparr>)\<rparr>"

definition env_db_down :: "nat \<Rightarrow> env" where
  "env_db_down t = (env_up t)\<lparr>db_read_throws := True\<rparr>"

text \<open>
  States: after a search for \<open>''stand''\<close> at time 0 with all sites up, and the response
  of that search; the same state after a restart at time 5; after a search for
  \<open>''stand''\<close> at time 0 with Printables down; after a search for \<open>''stand''\<close> at time 0
  with all sites down and the write to the table throwing.
\<close>

definition response1 :: envelope where
  "response1 =
     build_response ''stand'' (fetched (env_up 0) Thingiverse ''stand'')
       (fetched (env_up 0) Printables ''stand'') (fetched (env_up 0) MakerWorld ''stand'')"

definition state3 :: state where
  "state3 = fst (snd (api_search (env_write_throws 0) state0 (Some ''stand'')))"

definition state1 :: state where
  "state1 = fst (snd (api_search (env_up 0) state0 (Some ''stand'')))"

definition state1_restarted :: state where
  "state1_restarted = \<lparr>db = cleanOldSearches 5 (db state1), cache = Map.empty\<rparr>"

definition state2 :: state where
  "state2 = fst (snd (api_search (env_printables_down 0) state0 (Some ''stand'')))"

text \<open>
  The runs of the server that lead to these states, and two requests for \<open>''stand''\<close>
  that both arrive before either settles.
\<close>

definition server1 :: server where
  "server1 =
     run_actions [Arrive 0 (env_up 0) (Some ''stand''), Settle 0 (env_up 0)] server0"

definition server1_restarted :: server where
  "server1_restarted = step (Restart 5) server1"

definition server2 :: server where
  "server2 =
     run_actions [Arrive 0 (env_printables_down 0) (Some ''stand''),
                  Settle 0 (env_printables_down 0)] server0"

definition concurrent_pair :: "action list" where
  "concurrent_pair =
     [Arrive 0 (env_up 0) (Some ''stand''), Arrive 1 (env_up 1) (Some ''stand''),
      Settle 0 (env_up 8), Settle 1 (env_makerworld_rejects 9)]"

section \<open>Rejection of an absent or empty query\<close>

text \<open>
  C9. A request whose query is absent or empty is answered with the client error 400;
  the state of both caches is the one before the request and no cache is read, no cache
  is written and no scraper is invoked (the list of effects is empty).
\<close>

theorem empty_query_rejected:
  "api_search e st None = (Error 400 ''Query parameter required'', st, []) \<and>
   api_search e st (Some '''') = (Error 400 ''Query parameter required'', st, [])"
  by (simp add: api_search_def)

theorem empty_query_rejected_witness:
  "api_search (env_up 0) state1 None = (Error 400 ''Query parameter required'', state1, []) \<and>
   api_search (env_up 0) state1 (Some []) = (Error 400 ''Query parameter required'', state1, [])"
  by (rule empty_query_rejected)

section \<open>What the scrapers deliver\<close>

text \<open>
  Every listing a scraper delivers carries the name of its platform in \<open>source\<close>: the
  scrapers write the field as a constant.
\<close>

lemma thingiverse_tagged: "r \<in> set (fulfilled_or_empty (searchThingiverse w q)) \<Longrightarrow> source r = ''thingiverse''"
  by (auto simp: searchThingiverse_def fulfilled_or_empty_def split: page_run.splits if_splits)

lemma printables_tagged: "r \<in> set (fulfilled_or_empty (searchPrintables w q)) \<Longrightarrow> source r = ''printables''"
  by (auto simp: searchPrintables_def fulfilled_or_empty_def split: page_run.splits if_splits)

lemma makerworld_tagged: "r \<in> set (fulfilled_or_empty (searchMakerWorld w q)) \<Longrightarrow> source r = ''makerworld''"
  by (auto simp: searchMakerWorld_def fulfilled_or_empty_def split: page_run.splits if_splits)

lemma fetched_tagged: "r \<in> set (fetched e a q) \<Longrightarrow> source r = tag a"
  by (cases a) (auto simp: fetched_def dest: thingiverse_tagged printables_tagged makerworld_tagged)

lemma filter_all: "(\<And>r. r \<in> set rs \<Longrightarrow> source r = s) \<Longrightarrow> filter (\<lambda>r. source r = s) rs = rs"
  by (induction rs) auto

lemma filter_none: "(\<And>r. r \<in> set rs \<Longrightarrow> source r = s') \<Longrightarrow> s' \<noteq> s \<Longrightarrow> filter (\<lambda>r. source r = s) rs = []"
  by (induction rs) auto

section \<open>Stored records keep exact counts\<close>

text \<open>
  A response built by the handler has exact counts, both caches only ever receive such
  responses, and so every row, every memory entry and every reply of a server reached
  from the first start has exact counts.
\<close>

lemma build_response_ok:
  assumes "list_all (\<lambda>r. source r = ''thingiverse'') t"
      "list_all (\<lambda>r. source r = ''printables'') p"
    "list_all (\<lambda>r. source r = ''makerworld'') m"
  shows "envelope_ok (build_response q t p m)"
  using assms
  by (simp add: envelope_ok_def counts_exact_def build_response_def list_all_iff filter_all filter_none[where s'="''thingiverse''"]
filter_none[where s'="''printables''"] filter_none[where s'="''makerworld''"])

lemma filter_tagged: "list_all (\<lambda>r. source r = s) (filter (\<lambda>r. source r = s) rs)"
  by (simp add: list_all_iff)

lemma thingiverse_all: "list_all (\<lambda>r. source r = ''thingiverse'') (fulfilled_or_empty (searchThingiverse w q))"
  by (simp add: list_all_iff thingiverse_tagged)

lemma printables_all: "list_all (\<lambda>r. source r = ''printables'') (fulfilled_or_empty (searchPrintables w q))"
  by (simp add: list_all_iff printables_tagged)

lemma makerworld_all: "list_all (\<lambda>r. source r = ''makerworld'') (fulfilled_or_empty (searchMakerWorld w q))"
  by (simp add: list_all_iff makerworld_tagged)

lemma fulfilled_or_empty_Fulfilled: "fulfilled_or_empty (Fulfilled v) = v"
  by (simp add: fulfilled_or_empty_def)

lemma store_ok:
  assumes "state_ok st" "envelope_ok v"
  shows "state_ok (store e st q v)"
  using assms
  by (auto simp: state_ok_def store_def cache_set_def cacheSearch_def envelope_ok_def
      split: if_splits option.splits)

lemma getCachedSearch_ok:
  assumes "state_ok st" "getCachedSearch th (db st) q = Some c"
  shows "envelope_ok c"
  using assms
  by (auto simp: state_ok_def getCachedSearch_def envelope_ok_def split: if_splits option.splits)

lemma cache_get_ok:
  assumes "state_ok st" "cache_get t (cache st) k = Some v"
  shows "envelope_ok v"
proof -
  from assms(2) obtain t' where "cache st k = Some (v, t')"
    by (auto simp: cache_get_def split: option.splits if_splits)
  with assms(1) show ?thesis unfolding state_ok_def by blast
qed

lemma partial_refresh_reply_ok:
  "partial_refresh e st q c = (rep, st', evs) \<Longrightarrow> \<exists>v. rep = Json v \<and> envelope_ok v \<and> st' = store e st q v"
  by (auto simp: partial_refresh_def Let_def fulfilled_or_empty_Fulfilled
      intro!: build_response_ok filter_tagged thingiverse_all printables_all makerworld_all)

lemma full_search_reply_ok:
  "full_search e st q = (rep, st', evs) \<Longrightarrow> \<exists>v. rep = Json v \<and> envelope_ok v \<and> st' = store e st q v"
  by (auto simp: full_search_def Let_def
      intro!: build_response_ok thingiverse_all printables_all makerworld_all)

lemma api_search_ok:
  assumes "state_ok st" "api_search e st req_q = (rep, st', evs)"
  shows "state_ok st' \<and> (\<forall>v. rep = Json v \<longrightarrow> envelope_ok v)"
proof (cases req_q)
  case None
  with assms show ?thesis by (auto simp: api_search_def)
next
  case (Some q)
  show ?thesis
  proof (cases "q = []")
    case True
    with Some assms show ?thesis by (auto simp: api_search_def)
  next
    case False
    show ?thesis
    proof (cases "getCachedSearch (db_read_throws e) (db st) q")
      case hit: (Some c)
      then have c: "envelope_ok c" using assms(1) by (rule getCachedSearch_ok[rotated])
      show ?thesis
      proof (cases "needsRefresh c")
        case True
        with Some False hit assms(2) have "partial_refresh e st q c = (rep, st', evs)"
          by (simp add: api_search_def)
        from partial_refresh_reply_ok[OF this] assms(1) show ?thesis
          by (auto intro: store_ok)
      next
        case nr: False
        with Some False hit assms c show ?thesis by (auto simp: api_search_def)
      qed
    next
      case miss: None
      show ?thesis
      proof (cases "cache_get (now e) (cache st) (cacheKey q)")
        case (Some v)
        then have "envelope_ok v" using assms(1) by (rule cache_get_ok[rotated])
        with \<open>req_q = Some q\<close> False miss Some assms show ?thesis by (auto simp: api_search_def)
      next
        case None
        with \<open>req_q = Some q\<close> False miss assms(2) have "full_search e st q = (rep, st', evs)"
          by (simp add: api_search_def)
        from full_search_reply_ok[OF this] assms(1) show ?thesis
          by (auto intro: store_ok)
      qed
    qed
  qed
qed

lemma settle_tagged:
  assumes "slot_ok t sl" "list_all (\<lambda>r. source r = t) (fulfilled_or_empty p)"
  shows "list_all (\<lambda>r. source r = t) (settle p sl)"
  using assms by (cases sl) (simp_all add: settle_def)

lemma begin_ok:
  assumes "state_ok st" "api_search_begin e st req_q = (x, evs)"
  shows "case x of Inl r \<Rightarrow> reply_ok r | Inr p \<Rightarrow> pending_ok p"
proof (cases req_q)
  case None
  with assms(2) show ?thesis by (auto simp: api_search_begin_def)
next
  case (Some q)
  show ?thesis
  proof (cases "q = []")
    case True
    with Some assms(2) show ?thesis by (auto simp: api_search_begin_def)
  next
    case False
    show ?thesis
    proof (cases "getCachedSearch (db_read_throws e) (db st) q")
      case hit: (Some c)
      with assms(1) have "envelope_ok c" by (rule getCachedSearch_ok)
      with Some False hit assms(2) show ?thesis
        by (auto simp: api_search_begin_def list_all_iff split: if_splits)
    next
      case miss: None
      show ?thesis
      proof (cases "cache_get (now e) (cache st) (cacheKey q)")
        case None
        with Some False miss assms(2) show ?thesis by (auto simp: api_search_begin_def)
      next
        case hit: (Some v)
        with assms(1) have "envelope_ok v" by (rule cache_get_ok)
        with Some False miss hit assms(2) show ?thesis by (auto simp: api_search_begin_def)
      qed
    qed
  qed
qed

lemma resume_ok:
  assumes "state_ok st" "pending_ok p" "api_search_resume e st p = (r, st', evs)"
  shows "reply_ok r \<and> state_ok st'"
proof (cases p)
  case (Pending q s0 s1 s2)
  let ?v = "build_response q
              (settle (searchThingiverse (thingiverse_web e) q) s0)
              (settle (searchPrintables (printables_web e) q) s1)
              (settle (searchMakerWorld (makerworld_web e) q) s2)"
  from assms(2) Pending have "envelope_ok ?v"
    by (intro build_response_ok settle_tagged thingiverse_all printables_all makerworld_all)
       simp_all
  moreover from assms(3) Pending have "r = Json ?v" "st' = store e st q ?v"
    by (simp_all add: Let_def)
  ultimately show ?thesis using assms(1) by (simp add: store_ok)
qed

lemma restart_ok:
  "state_ok st \<Longrightarrow> state_ok \<lparr>db = cleanOldSearches t (db st), cache = Map.empty\<rparr>"
  by (auto simp: state_ok_def cleanOldSearches_def split: option.splits if_splits)

lemma step_ok:
  assumes "server_ok s"
  shows "server_ok (step a s)"
proof (cases a)
  case (Arrive i e req_q)
  obtain x evs where b: "api_search_begin e (srv_state s) req_q = (x, evs)"
    by (cases "api_search_begin e (srv_state s) req_q") blast
  from assms have "state_ok (srv_state s)" by (simp add: server_ok_def)
  from begin_ok[OF this b] assms Arrive b show ?thesis
    by (cases x) (simp_all add: server_ok_def)
next
  case (Settle i e)
  show ?thesis
  proof (cases "map_of (waiting s) i")
    case None
    with Settle assms show ?thesis by simp
  next
    case (Some p)
    then have "(i, p) \<in> set (waiting s)" by (rule map_of_SomeD)
    with assms have p: "pending_ok p" by (auto simp: server_ok_def list_all_iff)
    obtain r st' evs where r: "api_search_resume e (srv_state s) p = (r, st', evs)"
      by (cases "api_search_resume e (srv_state s) p") blast
    from assms have "state_ok (srv_state s)" by (simp add: server_ok_def)
    from resume_ok[OF this p r] assms Settle Some r show ?thesis
      by (simp add: server_ok_def list_all_iff)
  qed
next
  case (Restart t)
  with assms show ?thesis by (simp add: server_ok_def restart_ok)
qed

lemma server0_ok: "server_ok server0"
  by (simp add: server_ok_def server0_def state0_def state_ok_def)

lemma reachable_ok: "reachable s \<Longrightarrow> server_ok s"
  by (induction rule: reachable.induct) (simp_all add: server0_ok step_ok)

lemma reachable_run: "reachable s \<Longrightarrow> reachable (run_actions acts s)"
  by (induction acts arbitrary: s) (simp_all add: run_actions_def reachable.after_step)

text \<open>The definitions unfolded to run the handler on a concrete input.\<close>

lemmas eval_defs =
  api_search_def full_search_def partial_refresh_def build_response_def store_def
  getCachedSearch_def cacheSearch_def cache_get_def cache_set_def cacheKey_def
  needsRefresh_def fulfilled_or_empty_def
  searchThingiverse_def searchPrintables_def searchMakerWorld_def or_zero_def
  env_up_def site_up_def site_down_def card_def state0_def Let_def

lemmas server_defs =
  run_actions_def server0_def api_search_begin_def settle_def

lemma reachable_server1: "reachable server1"
  unfolding server1_def by (intro reachable_run reachable.first_start)

lemma reachable_server2: "reachable server2"
  unfolding server2_def by (intro reachable_run reachable.first_start)

lemma state_server1: "srv_state server1 = state1"
  by (simp add: server1_def state1_def server_defs eval_defs)

lemma state_server2: "srv_state server2 = state2"
  by (simp add: server2_def state2_def env_printables_down_def server_defs eval_defs)

section \<open>The response envelope\<close>

text \<open>
  C7. In every response the server sends, \<open>total\<close> is the number of listings in
  \<open>results\<close> and, for each platform, the count in \<open>sources\<close> is the number of listings
  in \<open>results\<close> whose \<open>source\<close> is that platform. This holds for every reply of every run
  of the server from its first start, whatever the order in which requests arrive and
  settle, and for the reply of the handler run on the state of such a server; the
  response may be freshly built, a row read back from the table or an entry of the memory
  cache.
\<close>

theorem envelope_counts_exact:
  assumes "reachable s"
  shows "(\<forall>i v. (i, Json v) \<in> set (replies s) \<longrightarrow>
            total v = length (results v) \<and>
            (\<forall>a. count_of (sources v) a = length (listings_of a (results v)))) \<and>
         (\<forall>e req_q v st' evs. api_search e (srv_state s) req_q = (Json v, st', evs) \<longrightarrow>
            total v = length (results v) \<and>
            (\<forall>a. count_of (sources v) a = length (listings_of a (results v))))"
proof -
  have x: "total v = length (results v) \<and>
            (\<forall>a. count_of (sources v) a = length (listings_of a (results v)))"
    if "envelope_ok v" for v
  proof -
    from that have t: "total v = length (results v)"
      and c: "counts_exact (results v) (sources v)"
      by (simp_all add: envelope_ok_def)
    have "count_of (sources v) a = length (listings_of a (results v))" for a
      using c by (cases a) (simp_all add: counts_exact_def listings_of_def)
    with t show ?thesis by simp
  qed
  from assms have ok: "server_ok s" by (rule reachable_ok)
  have "envelope_ok v" if "(i, Json v) \<in> set (replies s)" for i v
    using ok that by (fastforce simp: server_ok_def list_all_iff)
  moreover have "envelope_ok v" if "api_search e (srv_state s) req_q = (Json v, st', evs)"
    for e req_q v st' evs
    using ok that api_search_ok[of "srv_state s" e req_q "Json v" st' evs]
    by (simp add: server_ok_def)
  ultimately show ?thesis using x by blast
qed

theorem envelope_counts_exact_witness:
  "reachable server1 \<and>
   (\<exists>v. (0, Json v) \<in> set (replies server1) \<and>
      total v = 6 \<and> length (results v) = 6 \<and>
      count_of (sources v) MakerWorld = 2 \<and> length (listings_of MakerWorld (results v)) = 2) \<and>
   (\<exists>v st' evs. api_search (env_up 5) (srv_state server1) (Some ''stand'') = (Json v, st', evs) \<and>
      evs = [DbGet ''stand''] \<and> cached v \<and>
      total v = 6 \<and> length (results v) = 6 \<and>
      count_of (sources v) Printables = 2 \<and> length (listings_of Printables (results v)) = 2)"
proof -
  note t = envelope_counts_exact [OF reachable_server1]
  obtain w where w: "(0, Json w) \<in> set (replies server1)"
    and cw: "total w = 6" "count_of (sources w) MakerWorld = 2"
    by (simp add: server1_def server_defs eval_defs)
  from t w cw
  have lw: "length (results w) = 6 \<and> length (listings_of MakerWorld (results w)) = 2"
    by metis
  obtain v where v: "api_search (env_up 5) (srv_state server1) (Some ''stand'')
      = (Json v, state1, [DbGet ''stand''])"
    and c: "cached v" "total v = 6" "count_of (sources v) Printables = 2"
    unfolding state_server1 by (simp add: state1_def eval_defs)
  from t v c
  have "length (results v) = 6 \<and> length (listings_of Printables (results v)) = 2"
    by metis
  with v c w cw lw reachable_server1 show ?thesis by blast
qed

section \<open>Partial refresh\<close>

lemma listings_of_append: "listings_of a (xs @ ys) = listings_of a xs @ listings_of a ys"
  by (simp add: listings_of_def)

lemma listings_of_same: "list_all (\<lambda>r. source r = tag a) rs \<Longrightarrow> listings_of a rs = rs"
  by (simp add: listings_of_def list_all_iff filter_all)

lemma listings_of_other:
  "list_all (\<lambda>r. source r = tag b) rs \<Longrightarrow> a \<noteq> b \<Longrightarrow> listings_of a rs = []"
  unfolding listings_of_def list_all_iff
  by (rule filter_none[where s' = "tag b"]) (cases a; cases b; simp_all)+

lemma fetched_all: "list_all (\<lambda>r. source r = tag a) (fetched e a q)"
  by (simp add: list_all_iff fetched_tagged)

lemma listings_of_all: "list_all (\<lambda>r. source r = tag a) (listings_of a rs)"
  by (simp add: listings_of_def list_all_iff)

lemma refreshed_all: "list_all (\<lambda>r. source r = tag a) (refreshed e c a q)"
  by (simp add: refreshed_def fetched_all listings_of_all)

lemma partial_refresh_eq:
  "partial_refresh e st q c =
     (let v = build_response q (refreshed e c Thingiverse q) (refreshed e c Printables q)
                (refreshed e c MakerWorld q)
      in (Json v, store e st q v,
          [DbGet q] @ map (\<lambda>a. Invoke a q)
             (filter (\<lambda>a. count_of (sources c) a = 0) [Thingiverse, Printables, MakerWorld])
          @ [CacheSet (cacheKey q), DbPut q]))"
  by (simp add: partial_refresh_def refreshed_def fetched_def listings_of_def Let_def
      fulfilled_or_empty_Fulfilled)

lemma invoked_append: "invoked (xs @ ys) = invoked xs @ invoked ys"
  by (induction xs rule: invoked.induct) simp_all

lemma invoked_map_Invoke: "invoked (map (\<lambda>a. Invoke a q) as) = as"
  by (induction as) simp_all

lemma build_response_listings:
  assumes "\<And>b. list_all (\<lambda>r. source r = tag b) (f b)"
  shows "listings_of a (results (build_response q (f Thingiverse) (f Printables) (f MakerWorld)))
         = f a"
proof -
  have same: "listings_of b (f b) = f b" for b
    using assms by (rule listings_of_same)
  have other: "listings_of b (f b') = []" if "b \<noteq> b'" for b b'
    using assms that by (rule listings_of_other)
  show ?thesis
    by (cases a) (simp_all add: build_response_def listings_of_append same other)
qed

lemma build_response_count:
  "count_of (sources (build_response q (f Thingiverse) (f Printables) (f MakerWorld))) a = length (f a)"
  by (cases a) (simp_all add: build_response_def)

lemma counts_exact_count_of:
  "counts_exact rs c \<Longrightarrow> count_of c a = length (listings_of a rs)"
  by (cases a) (simp_all add: counts_exact_def listings_of_def)

lemma store_cache_get: "cache_get (now e) (cache (store e st q v)) (cacheKey q) = Some v"
  by (simp add: store_def cache_get_def cache_set_def)

lemma store_db_get:
  "\<not> db_write_throws e \<Longrightarrow>
   getCachedSearch False (db (store e st q v)) q =
     Some \<lparr>query = q, total = length (results v), results = results v, sources = sources v,
           cached = True, cached_at = Some (now e)\<rparr>"
  by (simp add: store_def getCachedSearch_def cacheSearch_def split: option.splits)

text \<open>
  The partial refresh on any row \<open>getCachedSearch\<close> returns, also one edited by hand:
  the platforms with a count of 0 are searched, the listings of the others are the
  cached listings of that platform, and each new count is the number of listings.
\<close>

lemma partial_refresh_general:
  assumes "q \<noteq> []" "getCachedSearch (db_read_throws e) (db st) q = Some c" "needsRefresh c"
  shows "\<exists>v evs. api_search e st (Some q) = (Json v, store e st q v, evs) \<and>
           invoked evs = filter (\<lambda>a. count_of (sources c) a = 0)
                           [Thingiverse, Printables, MakerWorld] \<and>
           (\<forall>a. listings_of a (results v) = refreshed e c a q \<and>
                count_of (sources v) a = length (refreshed e c a q)) \<and>
           query v = q \<and> total v = length (results v) \<and> \<not> cached v \<and> cached_at v = None"
proof -
  let ?v = "build_response q (refreshed e c Thingiverse q) (refreshed e c Printables q)
              (refreshed e c MakerWorld q)"
  let ?evs = "[DbGet q] @ map (\<lambda>a. Invoke a q)
             (filter (\<lambda>a. count_of (sources c) a = 0) [Thingiverse, Printables, MakerWorld])
          @ [CacheSet (cacheKey q), DbPut q]"
  have "api_search e st (Some q) = partial_refresh e st q c"
    using assms by (simp add: api_search_def)
  then have a: "api_search e st (Some q) = (Json ?v, store e st q ?v, ?evs)"
    by (simp only: partial_refresh_eq Let_def)
  have i: "invoked ?evs = filter (\<lambda>a. count_of (sources c) a = 0)
                           [Thingiverse, Printables, MakerWorld]"
    by (simp only: invoked_append invoked_map_Invoke) simp
  have l: "listings_of a (results ?v) = refreshed e c a q" for a
    by (rule build_response_listings[where f = "\<lambda>a. refreshed e c a q"]) (rule refreshed_all)
  have n: "count_of (sources ?v) a = length (refreshed e c a q)" for a
    by (rule build_response_count[where f = "\<lambda>a. refreshed e c a q"])
  have r: "query ?v = q \<and> total ?v = length (results ?v) \<and> \<not> cached ?v \<and> cached_at ?v = None"
    by (simp add: build_response_def)
  from a i l n r show ?thesis by blast
qed

text \<open>
  C1. When the row of a query has a platform with a count of 0, the request searches
  exactly the platforms with a count of 0 (each once, in the fixed order). For every
  platform with a positive cached count, its listings in the merged result are the cached
  ones and its count in the new record is the cached count; for every platform that was
  searched, its listings and its count are those of the new search. The new record is
  written to the memory cache and, unless the write throws, to the table. The state is
  that of a server reached from the first start, so that the cached counts are the
  numbers of cached listings.
\<close>

theorem partial_refresh_exact:
  assumes "reachable s" "q \<noteq> []"
    and "getCachedSearch (db_read_throws e) (db (srv_state s)) q = Some c" "needsRefresh c"
  shows "\<exists>v st' evs. api_search e (srv_state s) (Some q) = (Json v, st', evs) \<and>
     invoked evs = filter (\<lambda>a. count_of (sources c) a = 0) [Thingiverse, Printables, MakerWorld] \<and>
     (\<forall>a. 0 < count_of (sources c) a \<longrightarrow>
          listings_of a (results v) = listings_of a (results c) \<and>
          count_of (sources v) a = count_of (sources c) a) \<and>
     (\<forall>a. count_of (sources c) a = 0 \<longrightarrow>
          listings_of a (results v) = fetched e a q \<and>
          count_of (sources v) a = length (fetched e a q)) \<and>
     cache_get (now e) (cache st') (cacheKey q) = Some v \<and>
     (\<not> db_write_throws e \<longrightarrow>
        getCachedSearch False (db st') q = Some (v\<lparr>cached := True, cached_at := Some (now e)\<rparr>))"
proof -
  from partial_refresh_general[OF assms(2-4)] obtain v evs where
    a: "api_search e (srv_state s) (Some q) = (Json v, store e (srv_state s) q v, evs)"
    and i: "invoked evs = filter (\<lambda>a. count_of (sources c) a = 0)
                           [Thingiverse, Printables, MakerWorld]"
    and l: "\<And>a. listings_of a (results v) = refreshed e c a q"
    and n: "\<And>a. count_of (sources v) a = length (refreshed e c a q)"
    and r: "query v = q" "total v = length (results v)" "\<not> cached v" "cached_at v = None"
    by blast
  from assms(1) have "server_ok s" by (rule reachable_ok)
  then have "state_ok (srv_state s)" by (simp add: server_ok_def)
  then have "envelope_ok c" using assms(3) by (rule getCachedSearch_ok)
  then have c: "count_of (sources c) a = length (listings_of a (results c))" for a
    by (simp add: envelope_ok_def counts_exact_count_of)
  have pos: "listings_of a (results v) = listings_of a (results c) \<and>
          count_of (sources v) a = count_of (sources c) a" if "0 < count_of (sources c) a" for a
    using that l[of a] n[of a] c[of a] by (simp add: refreshed_def)
  have zero: "listings_of a (results v) = fetched e a q \<and>
          count_of (sources v) a = length (fetched e a q)" if "count_of (sources c) a = 0" for a
    using that l[of a] n[of a] by (simp add: refreshed_def)
  have w: "getCachedSearch False (db (store e (srv_state s) q v)) q =
        Some (v\<lparr>cached := True, cached_at := Some (now e)\<rparr>)" if "\<not> db_write_throws e"
    using store_db_get[OF that, of "srv_state s" q v] r by simp
  from a i pos zero w store_cache_get[of e "srv_state s" q v] show ?thesis by blast
qed

theorem partial_refresh_exact_witness:
  "reachable server2 \<and> ''stand'' \<noteq> [] \<and>
   (\<exists>c. getCachedSearch (db_read_throws (env_up 5)) (db (srv_state server2)) ''stand'' = Some c \<and>
      needsRefresh c \<and>
      sources c = \<lparr>thingiverse = 2, printables = 0, makerworld = 2\<rparr> \<and>
      (\<exists>v st' evs. api_search (env_up 5) (srv_state server2) (Some ''stand'')
            = (Json v, st', evs) \<and>
         invoked evs = [Printables] \<and>
         listings_of Thingiverse (results v) = listings_of Thingiverse (results c) \<and>
         listings_of MakerWorld (results v) = listings_of MakerWorld (results c) \<and>
         listings_of Printables (results v) = fetched (env_up 5) Printables ''stand'' \<and>
         sources v = \<lparr>thingiverse = 2, printables = 2, makerworld = 2\<rparr> \<and>
         getCachedSearch False (db st') ''stand''
           = Some (v\<lparr>cached := True, cached_at := Some 5\<rparr>)))"
proof -
  obtain c where
    c: "getCachedSearch (db_read_throws (env_up 5)) (db (srv_state server2)) ''stand'' = Some c"
    and s: "sources c = \<lparr>thingiverse = 2, printables = 0, makerworld = 2\<rparr>"
    unfolding state_server2 by (simp add: state2_def env_printables_down_def eval_defs)
  from s have nr: "needsRefresh c" by (simp add: needsRefresh_def)
  have q: "''stand'' \<noteq> []" by simp
  have w: "\<not> db_write_throws (env_up 5)" "now (env_up 5) = 5" by (simp_all add: env_up_def)
  have f: "length (fetched (env_up 5) Printables ''stand'') = 2"
    by (simp add: fetched_def eval_defs)
  from partial_refresh_exact [OF reachable_server2 q c nr] obtain v st' evs where
    a: "api_search (env_up 5) (srv_state server2) (Some ''stand'') = (Json v, st', evs)"
    and i: "invoked evs = filter (\<lambda>a. count_of (sources c) a = 0)
                           [Thingiverse, Printables, MakerWorld]"
    and pos: "\<And>a. 0 < count_of (sources c) a \<Longrightarrow>
          listings_of a (results v) = listings_of a (results c) \<and>
          count_of (sources v) a = count_of (sources c) a"
    and zero: "\<And>a. count_of (sources c) a = 0 \<Longrightarrow>
          listings_of a (results v) = fetched (env_up 5) a ''stand'' \<and>
          count_of (sources v) a = length (fetched (env_up 5) a ''stand'')"
    and d: "getCachedSearch False (db st') ''stand''
           = Some (v\<lparr>cached := True, cached_at := Some 5\<rparr>)"
    using w by auto
  from i s have i': "invoked evs = [Printables]" by simp
  from pos[of Thingiverse] pos[of MakerWorld] zero[of Printables] s f
  have l: "listings_of Thingiverse (results v) = listings_of Thingiverse (results c)"
    "listings_of MakerWorld (results v) = listings_of MakerWorld (results c)"
    "listings_of Printables (results v) = fetched (env_up 5) Printables ''stand''"
    "thingiverse (sources v) = 2" "makerworld (sources v) = 2" "printables (sources v) = 2"
    by simp_all
  then have "sources v = \<lparr>thingiverse = 2, printables = 2, makerworld = 2\<rparr>" by simp
  with reachable_server2 q c nr s a i' l d show ?thesis by blast
qed

section \<open>Cache hits\<close>

lemma api_search_db_hit:
  assumes "q \<noteq> []" "getCachedSearch (db_read_throws e) (db st) q = Some c" "\<not> needsRefresh c"
  shows "api_search e st (Some q) = (Json c, st, [DbGet q])"
  using assms by (simp add: api_search_def)

lemma api_search_memory_hit:
  assumes "q \<noteq> []" "getCachedSearch (db_read_throws e) (db st) q = None"
    "cache_get (now e) (cache st) (cacheKey q) = Some v"
  shows "api_search e st (Some q) = (Json v, st, [DbGet q, CacheGet (cacheKey q)])"
  using assms by (simp add: api_search_def)

lemma api_search_full:
  assumes "q \<noteq> []" "getCachedSearch (db_read_throws e) (db st) q = None"
    "cache_get (now e) (cache st) (cacheKey q) = None"
  shows "api_search e st (Some q) = full_search e st q"
  using assms by (simp add: api_search_def)

lemma full_search_eq:
  "full_search e st q =
     (let v = build_response q (fetched e Thingiverse q) (fetched e Printables q)
                (fetched e MakerWorld q)
      in (Json v, store e st q v,
          [DbGet q, CacheGet (cacheKey q),
           Invoke Thingiverse q, Invoke Printables q, Invoke MakerWorld q,
           CacheSet (cacheKey q), DbPut q]))"
  by (simp add: full_search_def fetched_def)

lemma getCachedSearch_row:
  "getCachedSearch th d q = Some c \<Longrightarrow>
   \<exists>r. d q = Some r \<and> results c = row_results r \<and> sources c = row_sources r \<and>
       query c = q \<and> total c = length (row_results r) \<and> cached c \<and>
       cached_at c = Some (updated_at r)"
  by (auto simp: getCachedSearch_def split: if_splits option.splits)

text \<open>
  C8, as the specification states it: a second identical request returns the identical
  envelope. The first request for \<open>''stand''\<close> returns \<open>response1\<close>, which has no key
  \<open>cached\<close>; the second is answered from the table, calls no scraper, and its reply has
  \<open>cached: true\<close> and \<open>cached_at\<close> in addition, so it is not the first reply.
\<close>

theorem identical_envelope_counterexample:
  "api_search (env_up 0) state0 (Some ''stand'')
     = (Json response1, state1,
        [DbGet ''stand'', CacheGet (cacheKey ''stand''), Invoke Thingiverse ''stand'',
         Invoke Printables ''stand'', Invoke MakerWorld ''stand'',
         CacheSet (cacheKey ''stand''), DbPut ''stand'']) \<and>
   sources response1 = \<lparr>thingiverse = 2, printables = 2, makerworld = 2\<rparr> \<and>
   cached response1 = False \<and> cached_at response1 = None \<and>
   api_search (env_up 5) state1 (Some ''stand'')
     = (Json (response1\<lparr>cached := True, cached_at := Some 0\<rparr>), state1, [DbGet ''stand'']) \<and>
   Json (response1\<lparr>cached := True, cached_at := Some 0\<rparr>) \<noteq> Json response1"
proof -
  have a: "api_search (env_up 0) state0 (Some ''stand'')
     = (Json response1, state1,
        [DbGet ''stand'', CacheGet (cacheKey ''stand''), Invoke Thingiverse ''stand'',
         Invoke Printables ''stand'', Invoke MakerWorld ''stand'',
         CacheSet (cacheKey ''stand''), DbPut ''stand''])"
    by (simp add: state1_def response1_def fetched_def eval_defs)
  have b: "sources response1 = \<lparr>thingiverse = 2, printables = 2, makerworld = 2\<rparr>"
    "cached response1 = False" "cached_at response1 = None"
    by (simp_all add: response1_def fetched_def eval_defs)
  have c: "api_search (env_up 5) state1 (Some ''stand'')
     = (Json (response1\<lparr>cached := True, cached_at := Some 0\<rparr>), state1, [DbGet ''stand''])"
    by (simp add: state1_def response1_def fetched_def eval_defs)
  from b(2) have d: "Json (response1\<lparr>cached := True, cached_at := Some 0\<rparr>) \<noteq> Json response1"
    by (metis envelope.select_convs(5) envelope.surjective envelope.update_convs(5)
        envelope.update_convs(6) reply.inject(1))
  from a b c d show ?thesis by blast
qed

text \<open>
  C8, amended. A request served from a cache calls no scraper and changes no cache.
  (1) When the row of the query has all three counts positive, the reply is the row:
  \<open>query\<close>, \<open>results\<close> and \<open>sources\<close> are the stored ones, \<open>total\<close> is the number of
  stored listings, \<open>cached\<close> is true and \<open>cached_at\<close> is the time the row was last
  written; the only effect is the read of the table.
  (2) When the table gives no row and the memory cache holds an entry that has not
  expired, the reply is that entry.
  (3) A second request for the same query, after a full search whose three counts are
  positive was stored, calls no scraper and returns the first response with the two keys
  \<open>cached: true\<close> and \<open>cached_at\<close> (the time of the first request) added: its
  \<open>query\<close>, \<open>total\<close>, \<open>results\<close> and \<open>sources\<close> are those of the first response.
\<close>

theorem fresh_hit_no_fetch:
  assumes "q \<noteq> []"
  shows
   "(\<forall>c. getCachedSearch (db_read_throws e) (db st) q = Some c \<and>
         0 < thingiverse (sources c) \<and> 0 < printables (sources c) \<and> 0 < makerworld (sources c)
       \<longrightarrow> api_search e st (Some q) = (Json c, st, [DbGet q]) \<and>
           (\<exists>r. db st q = Some r \<and> query c = q \<and> total c = length (row_results r) \<and>
                results c = row_results r \<and> sources c = row_sources r \<and>
                cached c \<and> cached_at c = Some (updated_at r))) \<and>
    (\<forall>v. getCachedSearch (db_read_throws e) (db st) q = None \<and>
         cache_get (now e) (cache st) (cacheKey q) = Some v
       \<longrightarrow> api_search e st (Some q) = (Json v, st, [DbGet q, CacheGet (cacheKey q)])) \<and>
    (\<forall>v st1 evs e2.
         getCachedSearch (db_read_throws e) (db st) q = None \<and>
         cache_get (now e) (cache st) (cacheKey q) = None \<and>
         api_search e st (Some q) = (Json v, st1, evs) \<and>
         0 < thingiverse (sources v) \<and> 0 < printables (sources v) \<and> 0 < makerworld (sources v) \<and>
         \<not> db_write_throws e \<and> \<not> db_read_throws e2
       \<longrightarrow> (\<exists>v2. api_search e2 st1 (Some q) = (Json v2, st1, [DbGet q]) \<and>
                v2 = v\<lparr>cached := True, cached_at := Some (now e)\<rparr> \<and>
                \<not> cached v \<and> cached_at v = None \<and>
                query v2 = query v \<and> total v2 = total v \<and>
                results v2 = results v \<and> sources v2 = sources v))"
proof (intro conjI allI impI)
  fix c
  assume h: "getCachedSearch (db_read_throws e) (db st) q = Some c \<and>
         0 < thingiverse (sources c) \<and> 0 < printables (sources c) \<and> 0 < makerworld (sources c)"
  then have "\<not> needsRefresh c" by (simp add: needsRefresh_def)
  with assms h show "api_search e st (Some q) = (Json c, st, [DbGet q])"
    by (simp add: api_search_db_hit)
  from h getCachedSearch_row[of "db_read_throws e" "db st" q c]
  show "\<exists>r. db st q = Some r \<and> query c = q \<and> total c = length (row_results r) \<and>
                results c = row_results r \<and> sources c = row_sources r \<and>
                cached c \<and> cached_at c = Some (updated_at r)"
    by blast
next
  fix v
  assume "getCachedSearch (db_read_throws e) (db st) q = None \<and>
         cache_get (now e) (cache st) (cacheKey q) = Some v"
  with assms show "api_search e st (Some q) = (Json v, st, [DbGet q, CacheGet (cacheKey q)])"
    by (simp add: api_search_memory_hit)
next
  fix v st1 evs and e2 :: env
  assume h: "getCachedSearch (db_read_throws e) (db st) q = None \<and>
         cache_get (now e) (cache st) (cacheKey q) = None \<and>
         api_search e st (Some q) = (Json v, st1, evs) \<and>
         0 < thingiverse (sources v) \<and> 0 < printables (sources v) \<and> 0 < makerworld (sources v) \<and>
         \<not> db_write_throws e \<and> \<not> db_read_throws e2"
  with assms have "api_search e st (Some q) = full_search e st q"
    by (intro api_search_full) simp_all
  with h have "full_search e st q = (Json v, st1, evs)"
    by simp
  then have st1: "st1 = store e st q v" and t: "total v = length (results v)" and qv: "query v = q"
    and nc: "\<not> cached v" "cached_at v = None"
    by (auto simp: full_search_eq Let_def build_response_def)
  let ?c = "\<lparr>query = q, total = length (results v), results = results v, sources = sources v,
           cached = True, cached_at = Some (now e)\<rparr>"
  from h st1 have g: "getCachedSearch (db_read_throws e2) (db st1) q = Some ?c"
    by (simp add: store_db_get)
  from h have "\<not> needsRefresh ?c" by (simp add: needsRefresh_def)
  with assms g have a: "api_search e2 st1 (Some q) = (Json ?c, st1, [DbGet q])"
    by (rule api_search_db_hit)
  from t qv have "?c = v\<lparr>cached := True, cached_at := Some (now e)\<rparr>"
    by simp
  with a t qv nc show "\<exists>v2. api_search e2 st1 (Some q) = (Json v2, st1, [DbGet q]) \<and>
                v2 = v\<lparr>cached := True, cached_at := Some (now e)\<rparr> \<and>
                \<not> cached v \<and> cached_at v = None \<and>
                query v2 = query v \<and> total v2 = total v \<and>
                results v2 = results v \<and> sources v2 = sources v"
    by simp
qed

theorem fresh_hit_no_fetch_witness:
  "''stand'' \<noteq> [] \<and>
   (\<exists>c. getCachedSearch (db_read_throws (env_up 5)) (db state1) ''stand'' = Some c \<and>
      0 < thingiverse (sources c) \<and> 0 < printables (sources c) \<and> 0 < makerworld (sources c) \<and>
      api_search (env_up 5) state1 (Some ''stand'') = (Json c, state1, [DbGet ''stand'']) \<and>
      total c = 6 \<and> sources c = \<lparr>thingiverse = 2, printables = 2, makerworld = 2\<rparr> \<and>
      cached c) \<and>
   (\<exists>v. getCachedSearch (db_read_throws (env_db_down 5)) (db state1) ''stand'' = None \<and>
      cache_get (now (env_db_down 5)) (cache state1) (cacheKey ''stand'') = Some v \<and>
      api_search (env_db_down 5) state1 (Some ''stand'')
        = (Json v, state1, [DbGet ''stand'', CacheGet (cacheKey ''stand'')])) \<and>
   (\<exists>v evs.
      getCachedSearch (db_read_throws (env_up 0)) (db state0) ''stand'' = None \<and>
      cache_get (now (env_up 0)) (cache state0) (cacheKey ''stand'') = None \<and>
      api_search (env_up 0) state0 (Some ''stand'') = (Json v, state1, evs) \<and>
      0 < thingiverse (sources v) \<and> 0 < printables (sources v) \<and> 0 < makerworld (sources v) \<and>
      \<not> db_write_throws (env_up 0) \<and> \<not> db_read_throws (env_up 5) \<and>
      api_search (env_up 5) state1 (Some ''stand'')
        = (Json (v\<lparr>cached := True, cached_at := Some 0\<rparr>), state1, [DbGet ''stand'']) \<and>
      \<not> cached v)"
proof -
  have q: "''stand'' \<noteq> []" by simp
  note t1 = fresh_hit_no_fetch [OF q, of "env_up 5" state1]
  note t2 = fresh_hit_no_fetch [OF q, of "env_db_down 5" state1]
  note t3 = fresh_hit_no_fetch [OF q, of "env_up 0" state0]
  obtain c where c: "getCachedSearch (db_read_throws (env_up 5)) (db state1) ''stand'' = Some c"
    and s: "sources c = \<lparr>thingiverse = 2, printables = 2, makerworld = 2\<rparr>" "total c = 6"
    by (simp add: state1_def eval_defs)
  from s have p: "0 < thingiverse (sources c) \<and> 0 < printables (sources c) \<and>
      0 < makerworld (sources c)" by simp
  from t1 c p have a1: "api_search (env_up 5) state1 (Some ''stand'') = (Json c, state1, [DbGet ''stand''])"
    and cc: "cached c"
    by blast+
  obtain v where m: "getCachedSearch (db_read_throws (env_db_down 5)) (db state1) ''stand'' = None"
      "cache_get (now (env_db_down 5)) (cache state1) (cacheKey ''stand'') = Some v"
    by (simp add: state1_def env_db_down_def eval_defs)
  from t2 m have a2: "api_search (env_db_down 5) state1 (Some ''stand'')
        = (Json v, state1, [DbGet ''stand'', CacheGet (cacheKey ''stand'')])"
    by blast
  have n: "getCachedSearch (db_read_throws (env_up 0)) (db state0) ''stand'' = None"
      "cache_get (now (env_up 0)) (cache state0) (cacheKey ''stand'') = None"
      "\<not> db_write_throws (env_up 0)" "\<not> db_read_throws (env_up 5)"
    by (simp_all add: eval_defs)
  have n0: "now (env_up 0) = 0" by (simp add: env_up_def)
  obtain w evs where f: "api_search (env_up 0) state0 (Some ''stand'') = (Json w, state1, evs)"
    and pw: "0 < thingiverse (sources w) \<and> 0 < printables (sources w) \<and>
      0 < makerworld (sources w)"
    by (simp add: state1_def eval_defs)
  from t3 n f pw have
    "\<exists>v2. api_search (env_up 5) state1 (Some ''stand'') = (Json v2, state1, [DbGet ''stand'']) \<and>
        v2 = w\<lparr>cached := True, cached_at := Some (now (env_up 0))\<rparr> \<and>
        \<not> cached w \<and> cached_at w = None \<and>
        query v2 = query w \<and> total v2 = total w \<and>
        results v2 = results w \<and> sources v2 = sources w"
    by blast
  then have a3: "api_search (env_up 5) state1 (Some ''stand'')
        = (Json (w\<lparr>cached := True, cached_at := Some 0\<rparr>), state1, [DbGet ''stand''])"
    and nw: "\<not> cached w"
    unfolding n0 by blast+
  from q c s p a1 cc m a2 n f pw a3 nw show ?thesis by blast
qed

section \<open>Failing scrapers\<close>

lemma fails_fetched: "fails (web_of e a q) \<Longrightarrow> fetched e a q = []"
  by (cases a)
     (auto simp: fails_def fetched_def fulfilled_or_empty_def searchThingiverse_def
        searchPrintables_def searchMakerWorld_def)

lemma full_search_general:
  "\<exists>v evs. full_search e st q = (Json v, store e st q v, evs) \<and>
           invoked evs = [Thingiverse, Printables, MakerWorld] \<and>
           (\<forall>a. listings_of a (results v) = fetched e a q \<and>
                count_of (sources v) a = length (fetched e a q)) \<and>
           results v = fetched e Thingiverse q @ fetched e Printables q @ fetched e MakerWorld q \<and>
           query v = q \<and> total v = length (results v) \<and> \<not> cached v \<and> cached_at v = None"
proof -
  let ?v = "build_response q (fetched e Thingiverse q) (fetched e Printables q)
                (fetched e MakerWorld q)"
  have l: "listings_of a (results ?v) = fetched e a q" for a
    by (rule build_response_listings[where f = "\<lambda>a. fetched e a q"]) (rule fetched_all)
  have n: "count_of (sources ?v) a = length (fetched e a q)" for a
    by (rule build_response_count[where f = "\<lambda>a. fetched e a q"])
  have r: "results ?v = fetched e Thingiverse q @ fetched e Printables q @ fetched e MakerWorld q"
    "query ?v = q \<and> total ?v = length (results ?v) \<and> \<not> cached ?v \<and> cached_at ?v = None"
    by (simp_all add: build_response_def)
  show ?thesis
    unfolding full_search_eq Let_def using l n r by simp
qed

lemma api_search_cases:
  assumes "q \<noteq> []"
  obtains
    (db_fresh) c where "getCachedSearch (db_read_throws e) (db st) q = Some c" "\<not> needsRefresh c"
      "api_search e st (Some q) = (Json c, st, [DbGet q])"
  | (db_partial) c where "getCachedSearch (db_read_throws e) (db st) q = Some c" "needsRefresh c"
      "api_search e st (Some q) = partial_refresh e st q c"
  | (memory) v where "getCachedSearch (db_read_throws e) (db st) q = None"
      "cache_get (now e) (cache st) (cacheKey q) = Some v"
      "api_search e st (Some q) = (Json v, st, [DbGet q, CacheGet (cacheKey q)])"
  | (full) "getCachedSearch (db_read_throws e) (db st) q = None"
      "cache_get (now e) (cache st) (cacheKey q) = None"
      "api_search e st (Some q) = full_search e st q"
  using assms
  by (cases "getCachedSearch (db_read_throws e) (db st) q";
      cases "cache_get (now e) (cache st) (cacheKey q)")
     (auto simp: api_search_def)

lemma partial_refresh_results:
  "partial_refresh e st q c = (Json v, st', evs) \<Longrightarrow>
   results v = refreshed e c Thingiverse q @ refreshed e c Printables q
                 @ refreshed e c MakerWorld q"
  by (auto simp: partial_refresh_eq Let_def build_response_def)

lemma not_invoked_positive:
  assumes "invoked evs = filter (\<lambda>a. count_of (sources c) a = 0)
                           [Thingiverse, Printables, MakerWorld]"
  shows "(a \<in> set (invoked evs)) = (count_of (sources c) a = 0)"
  unfolding assms by (cases a) simp_all

text \<open>
  C5. A request with a non-empty query never ends in an error reply. For every scraper
  the request called, the listings of that platform in the response are exactly what the
  scraper delivered and the count is their number, whatever the other scrapers did; a
  scraper that throws (which includes the navigation timeout) or whose promise is
  rejected delivers nothing, so its platform has no listings and the count 0. In a request
  that called a scraper, every platform whose scraper was not called (a partial refresh)
  has exactly its cached listings in the response, and the response consists of the
  listings of the three platforms, in the fixed order, and of nothing else.
\<close>

theorem fault_isolation:
  assumes "q \<noteq> []" "api_search e st (Some q) = (rep, st', evs)"
  shows "\<exists>v. rep = Json v \<and>
          (\<forall>a\<in>set (invoked evs).
             listings_of a (results v) = fetched e a q \<and>
             count_of (sources v) a = length (fetched e a q) \<and>
             (fails (web_of e a q) \<longrightarrow>
                listings_of a (results v) = [] \<and> count_of (sources v) a = 0)) \<and>
          (invoked evs \<noteq> [] \<longrightarrow>
             (\<forall>a. a \<notin> set (invoked evs) \<longrightarrow>
                (\<exists>c. getCachedSearch (db_read_throws e) (db st) q = Some c \<and>
                     listings_of a (results v) = listings_of a (results c) \<and>
                     count_of (sources v) a = length (listings_of a (results c)))) \<and>
             results v = listings_of Thingiverse (results v) @ listings_of Printables (results v)
                           @ listings_of MakerWorld (results v) \<and>
             total v = length (results v))"
  using assms(1)
proof (cases rule: api_search_cases[where e = e and st = st])
  case (db_fresh c)
  with assms(2) show ?thesis by auto
next
  case (db_partial c)
  from partial_refresh_general[OF assms(1) db_partial(1,2)] assms(2) obtain v where
    v: "rep = Json v"
    and i: "invoked evs = filter (\<lambda>a. count_of (sources c) a = 0)
                           [Thingiverse, Printables, MakerWorld]"
    and l: "\<And>a. listings_of a (results v) = refreshed e c a q"
    and n: "\<And>a. count_of (sources v) a = length (refreshed e c a q)"
    and t: "total v = length (results v)"
    by auto
  from db_partial(3) assms(2) v have "partial_refresh e st q c = (Json v, st', evs)"
    by simp
  then have "results v = refreshed e c Thingiverse q @ refreshed e c Printables q
                 @ refreshed e c MakerWorld q"
    by (rule partial_refresh_results)
  then have r: "results v = listings_of Thingiverse (results v)
      @ listings_of Printables (results v) @ listings_of MakerWorld (results v)"
    using l[of Thingiverse] l[of Printables] l[of MakerWorld] by simp
  note z = not_invoked_positive[OF i]
  have called: "listings_of a (results v) = fetched e a q \<and>
        count_of (sources v) a = length (fetched e a q) \<and>
        (fails (web_of e a q) \<longrightarrow> listings_of a (results v) = [] \<and> count_of (sources v) a = 0)"
    if "a \<in> set (invoked evs)" for a
  proof -
    from that have "count_of (sources c) a = 0" by (simp only: z)
    with l[of a] n[of a] show ?thesis by (simp add: refreshed_def fails_fetched)
  qed
  have carried: "\<exists>c. getCachedSearch (db_read_throws e) (db st) q = Some c \<and>
                     listings_of a (results v) = listings_of a (results c) \<and>
                     count_of (sources v) a = length (listings_of a (results c))"
    if "a \<notin> set (invoked evs)" for a
  proof -
    from that have "count_of (sources c) a \<noteq> 0" by (simp only: z) simp
    with l[of a] n[of a] db_partial(1) show ?thesis by (simp add: refreshed_def)
  qed
  from v called carried r t show ?thesis by blast
next
  case (memory v)
  with assms(2) show ?thesis by auto
next
  case full
  from full_search_general[of e st q] full(3) assms(2) obtain v where
    v: "rep = Json v"
    and i: "invoked evs = [Thingiverse, Printables, MakerWorld]"
    and l: "\<And>a. listings_of a (results v) = fetched e a q"
    and n: "\<And>a. count_of (sources v) a = length (fetched e a q)"
    and r: "results v = fetched e Thingiverse q @ fetched e Printables q @ fetched e MakerWorld q"
    and t: "total v = length (results v)"
    by auto
  from r have r': "results v = listings_of Thingiverse (results v)
      @ listings_of Printables (results v) @ listings_of MakerWorld (results v)"
    using l[of Thingiverse] l[of Printables] l[of MakerWorld] by simp
  have all: "a \<in> set (invoked evs)" for a
    unfolding i by (cases a) simp_all
  have called: "listings_of a (results v) = fetched e a q \<and>
        count_of (sources v) a = length (fetched e a q) \<and>
        (fails (web_of e a q) \<longrightarrow> listings_of a (results v) = [] \<and> count_of (sources v) a = 0)"
    for a
    using l[of a] n[of a] by (simp add: fails_fetched)
  from v called all r' t show ?thesis by blast
qed

theorem fault_isolation_witness:
  "''stand'' \<noteq> [] \<and>
   (\<exists>v st' evs. api_search (env_printables_down 0) state0 (Some ''stand'') = (Json v, st', evs) \<and>
      invoked evs = [Thingiverse, Printables, MakerWorld] \<and>
      fails (web_of (env_printables_down 0) Printables ''stand'') \<and>
      listings_of Printables (results v) = [] \<and> count_of (sources v) Printables = 0 \<and>
      listings_of Thingiverse (results v) = fetched (env_printables_down 0) Thingiverse ''stand'' \<and>
      count_of (sources v) Thingiverse = 2 \<and>
      listings_of MakerWorld (results v) = fetched (env_printables_down 0) MakerWorld ''stand'' \<and>
      count_of (sources v) MakerWorld = 2 \<and> total v = 4) \<and>
   (\<exists>v st' evs c. api_search (env_printables_down 5) state2 (Some ''stand'') = (Json v, st', evs) \<and>
      invoked evs = [Printables] \<and>
      fails (web_of (env_printables_down 5) Printables ''stand'') \<and>
      listings_of Printables (results v) = [] \<and> count_of (sources v) Printables = 0 \<and>
      getCachedSearch (db_read_throws (env_printables_down 5)) (db state2) ''stand'' = Some c \<and>
      length (listings_of Thingiverse (results c)) = 2 \<and>
      length (listings_of MakerWorld (results c)) = 2 \<and>
      listings_of Thingiverse (results v) = listings_of Thingiverse (results c) \<and>
      count_of (sources v) Thingiverse = 2 \<and>
      listings_of MakerWorld (results v) = listings_of MakerWorld (results c) \<and>
      count_of (sources v) MakerWorld = 2 \<and>
      length (results v) = 4)"
proof -
  have q: "''stand'' \<noteq> []" by simp
  obtain v st' evs where
    a: "api_search (env_printables_down 0) state0 (Some ''stand'') = (Json v, st', evs)"
    and i: "invoked evs = [Thingiverse, Printables, MakerWorld]" and t: "total v = 4"
    by (simp add: env_printables_down_def eval_defs)
  have f: "fails (web_of (env_printables_down 0) Printables ''stand'')"
    by (simp add: fails_def env_printables_down_def site_down_def)
  have n: "length (fetched (env_printables_down 0) Thingiverse ''stand'') = 2"
    "length (fetched (env_printables_down 0) MakerWorld ''stand'') = 2"
    by (simp_all add: fetched_def env_printables_down_def eval_defs)
  from fault_isolation [OF q a]
  have b: "\<forall>a\<in>set (invoked evs).
             listings_of a (results v) = fetched (env_printables_down 0) a ''stand'' \<and>
             count_of (sources v) a = length (fetched (env_printables_down 0) a ''stand'') \<and>
             (fails (web_of (env_printables_down 0) a ''stand'') \<longrightarrow>
                listings_of a (results v) = [] \<and> count_of (sources v) a = 0)"
    by blast
  have m: "Printables \<in> set (invoked evs)" "Thingiverse \<in> set (invoked evs)"
    "MakerWorld \<in> set (invoked evs)"
    by (simp_all add: i)
  from bspec[OF b m(1)] f
  have p: "listings_of Printables (results v) = [] \<and> count_of (sources v) Printables = 0"
    by blast
  from bspec[OF b m(2)] n(1)
  have t': "listings_of Thingiverse (results v)
        = fetched (env_printables_down 0) Thingiverse ''stand'' \<and>
      count_of (sources v) Thingiverse = 2"
    by (simp del: count_of.simps)
  from bspec[OF b m(3)] n(2)
  have m': "listings_of MakerWorld (results v)
        = fetched (env_printables_down 0) MakerWorld ''stand'' \<and>
      count_of (sources v) MakerWorld = 2"
    by (simp del: count_of.simps)
  from q a i f t p t' m' have first:
    "\<exists>v st' evs. api_search (env_printables_down 0) state0 (Some ''stand'') = (Json v, st', evs) \<and>
      invoked evs = [Thingiverse, Printables, MakerWorld] \<and>
      fails (web_of (env_printables_down 0) Printables ''stand'') \<and>
      listings_of Printables (results v) = [] \<and> count_of (sources v) Printables = 0 \<and>
      listings_of Thingiverse (results v) = fetched (env_printables_down 0) Thingiverse ''stand'' \<and>
      count_of (sources v) Thingiverse = 2 \<and>
      listings_of MakerWorld (results v) = fetched (env_printables_down 0) MakerWorld ''stand'' \<and>
      count_of (sources v) MakerWorld = 2 \<and> total v = 4"
    by blast
  obtain w st2 evs2 where
    a2: "api_search (env_printables_down 5) state2 (Some ''stand'') = (Json w, st2, evs2)"
    and i2: "invoked evs2 = [Printables]"
    by (simp add: state2_def env_printables_down_def eval_defs)
  obtain c where
    c: "getCachedSearch (db_read_throws (env_printables_down 5)) (db state2) ''stand'' = Some c"
    and lc: "length (listings_of Thingiverse (results c)) = 2"
      "length (listings_of MakerWorld (results c)) = 2"
    by (simp add: state2_def env_printables_down_def listings_of_def eval_defs)
  have f2: "fails (web_of (env_printables_down 5) Printables ''stand'')"
    by (simp add: fails_def env_printables_down_def site_down_def)
  note th = fault_isolation [OF q a2]
  have ne: "invoked evs2 \<noteq> []" "Printables \<in> set (invoked evs2)"
    "Thingiverse \<notin> set (invoked evs2)" "MakerWorld \<notin> set (invoked evs2)"
    by (simp_all add: i2)
  from th ne(2) f2
  have p2: "listings_of Printables (results w) = [] \<and> count_of (sources w) Printables = 0"
    by blast
  from th ne(1,3) c
  have t2: "listings_of Thingiverse (results w) = listings_of Thingiverse (results c) \<and>
      count_of (sources w) Thingiverse = length (listings_of Thingiverse (results c))"
    by fastforce
  from th ne(1,4) c
  have m2: "listings_of MakerWorld (results w) = listings_of MakerWorld (results c) \<and>
      count_of (sources w) MakerWorld = length (listings_of MakerWorld (results c))"
    by fastforce
  from th ne(1)
  have "results w = listings_of Thingiverse (results w) @ listings_of Printables (results w)
                           @ listings_of MakerWorld (results w)"
    by blast
  then have "length (results w) = length (listings_of Thingiverse (results w))
      + length (listings_of Printables (results w)) + length (listings_of MakerWorld (results w))"
    by (metis length_append add.assoc)
  with p2 t2 m2 lc have len: "length (results w) = 4" by simp
  from t2 m2 lc have cnt: "count_of (sources w) Thingiverse = 2" "count_of (sources w) MakerWorld = 2"
    by (simp_all del: count_of.simps)
  from a2 i2 f2 p2 c lc t2 m2 cnt len have second:
    "\<exists>v st' evs c. api_search (env_printables_down 5) state2 (Some ''stand'') = (Json v, st', evs) \<and>
      invoked evs = [Printables] \<and>
      fails (web_of (env_printables_down 5) Printables ''stand'') \<and>
      listings_of Printables (results v) = [] \<and> count_of (sources v) Printables = 0 \<and>
      getCachedSearch (db_read_throws (env_printables_down 5)) (db state2) ''stand'' = Some c \<and>
      length (listings_of Thingiverse (results c)) = 2 \<and>
      length (listings_of MakerWorld (results c)) = 2 \<and>
      listings_of Thingiverse (results v) = listings_of Thingiverse (results c) \<and>
      count_of (sources v) Thingiverse = 2 \<and>
      listings_of MakerWorld (results v) = listings_of MakerWorld (results c) \<and>
      count_of (sources v) MakerWorld = 2 \<and>
      length (results v) = 4"
    by blast
  from q first second show ?thesis by blast
qed

section \<open>All scrapers failing\<close>

lemma invoked_partial_refresh:
  "invoked (snd (snd (partial_refresh e st q c)))
     = filter (\<lambda>a. count_of (sources c) a = 0) [Thingiverse, Printables, MakerWorld]"
  by (simp only: partial_refresh_eq Let_def snd_conv invoked_append invoked_map_Invoke) simp

lemma needsRefresh_iff:
  "needsRefresh c = (\<exists>a. count_of (sources c) a = 0)"
proof
  assume "needsRefresh c"
  then consider "count_of (sources c) Thingiverse = 0" | "count_of (sources c) Printables = 0"
    | "count_of (sources c) MakerWorld = 0"
    by (auto simp: needsRefresh_def)
  then show "\<exists>a. count_of (sources c) a = 0" by cases blast+
next
  assume "\<exists>a. count_of (sources c) a = 0"
  then obtain a where "count_of (sources c) a = 0" ..
  then show "needsRefresh c" by (cases a) (simp_all add: needsRefresh_def)
qed

lemma api_search_all_invoked:
  assumes "q \<noteq> []" "api_search e st (Some q) = (rep, st', evs)"
    "invoked evs = [Thingiverse, Printables, MakerWorld]"
  shows "rep = Json (build_response q (fetched e Thingiverse q) (fetched e Printables q)
                (fetched e MakerWorld q)) \<and>
         st' = store e st q (build_response q (fetched e Thingiverse q) (fetched e Printables q)
                (fetched e MakerWorld q))"
  using assms(1)
proof (cases rule: api_search_cases[where e = e and st = st])
  case (db_fresh c)
  with assms show ?thesis by auto
next
  case (db_partial c)
  with assms(2) have "invoked evs = filter (\<lambda>a. count_of (sources c) a = 0)
       [Thingiverse, Printables, MakerWorld]"
    using invoked_partial_refresh[of e st q c] by simp
  with assms(3) have "filter (\<lambda>a. count_of (sources c) a = 0)
       [Thingiverse, Printables, MakerWorld] = [Thingiverse, Printables, MakerWorld]"
    by simp
  then have z: "count_of (sources c) a = 0" for a
    by (cases a) (auto split: if_splits)
  from db_partial(3) assms(2) show ?thesis
    by (simp only: partial_refresh_eq Let_def refreshed_def z if_True) simp
next
  case (memory v)
  with assms show ?thesis by auto
next
  case full
  with assms(2) show ?thesis
    by (simp only: full_search_eq Let_def) simp
qed

text \<open>
  C6, as the specification states it: when every source fails, the record with all
  counts 0 is cached and is refreshed on the next request. \<open>cacheSearch\<close> swallows an
  error of the write to the table. All three scrapers throw and the write throws: the
  reply is the response without results, the table still has no row for the query, and
  the next request, which reads the table without error, is answered from the memory
  cache with the same empty response and calls no scraper.
\<close>

theorem all_sources_fail_counterexample:
  "fails (thingiverse_web (env_write_throws 0) ''stand'') \<and>
   fails (printables_web (env_write_throws 0) ''stand'') \<and>
   fails (makerworld_web (env_write_throws 0) ''stand'') \<and>
   api_search (env_write_throws 0) state0 (Some ''stand'')
     = (Json (no_results ''stand''), state3,
        [DbGet ''stand'', CacheGet (cacheKey ''stand''), Invoke Thingiverse ''stand'',
         Invoke Printables ''stand'', Invoke MakerWorld ''stand'',
         CacheSet (cacheKey ''stand''), DbPut ''stand'']) \<and>
   db state3 ''stand'' = None \<and>
   db_read_throws (env_up 5) = False \<and>
   api_search (env_up 5) state3 (Some ''stand'')
     = (Json (no_results ''stand''), state3,
        [DbGet ''stand'', CacheGet (cacheKey ''stand'')]) \<and>
   invoked [DbGet ''stand'', CacheGet (cacheKey ''stand'')] = []"
  by (simp add: state3_def env_write_throws_def env_all_down_def no_results_def fails_def
      eval_defs)

text \<open>
  C6, amended. When all three scrapers are called and none of them delivers a listing
  (it throws, its promise is rejected, its page is a challenge page or has no match), the
  reply is not an error: it is the response with \<open>total = 0\<close>, no listings and all counts
  0. This response is written to the memory cache. When the write to the table does not
  throw, it is written to the table too, and a next request for the same query that
  reads the row searches all three platforms again. When the write to the table throws,
  the table is left as it was.
\<close>

theorem all_sources_fail:
  assumes "q \<noteq> []" "api_search e st (Some q) = (rep, st', evs)"
    and "invoked evs = [Thingiverse, Printables, MakerWorld]"
    and "fetched e Thingiverse q = []" "fetched e Printables q = []"
      "fetched e MakerWorld q = []"
  shows "rep = Json (no_results q) \<and>
     cache_get (now e) (cache st') (cacheKey q) = Some (no_results q) \<and>
     (\<not> db_write_throws e \<longrightarrow>
        getCachedSearch False (db st') q
          = Some ((no_results q)\<lparr>cached := True, cached_at := Some (now e)\<rparr>) \<and>
        (\<forall>e2. \<not> db_read_throws e2 \<longrightarrow>
           invoked (snd (snd (api_search e2 st' (Some q))))
             = [Thingiverse, Printables, MakerWorld])) \<and>
     (db_write_throws e \<longrightarrow> db st' = db st)"
proof -
  have f: "fetched e a q = []" for a
    using assms(4-6) by (cases a) simp_all
  have b: "build_response q [] [] [] = no_results q"
    by (simp add: build_response_def no_results_def)
  from api_search_all_invoked[OF assms(1-3)]
  have rep: "rep = Json (no_results q)" and st': "st' = store e st q (no_results q)"
    by (simp_all add: f b)
  have c: "cache_get (now e) (cache st') (cacheKey q) = Some (no_results q)"
    unfolding st' by (rule store_cache_get)
  have u: "db st' = db st" if "db_write_throws e"
    unfolding st' using that by (simp add: store_def cacheSearch_def)
  have d: "getCachedSearch False (db st') q
          = Some ((no_results q)\<lparr>cached := True, cached_at := Some (now e)\<rparr>) \<and>
        (\<forall>e2. \<not> db_read_throws e2 \<longrightarrow>
           invoked (snd (snd (api_search e2 st' (Some q))))
             = [Thingiverse, Printables, MakerWorld])"
    if w: "\<not> db_write_throws e"
  proof -
    let ?c = "(no_results q)\<lparr>cached := True, cached_at := Some (now e)\<rparr>"
    have g: "getCachedSearch False (db st') q = Some ?c"
      unfolding st' using store_db_get[OF w, of st q "no_results q"]
      by (simp add: no_results_def)
    have nr: "needsRefresh ?c" by (simp add: needsRefresh_def no_results_def)
    have z: "count_of (sources ?c) a = 0" for a
      by (cases a) (simp_all add: no_results_def)
    have "invoked (snd (snd (api_search e2 st' (Some q))))
             = [Thingiverse, Printables, MakerWorld]" if r: "\<not> db_read_throws e2" for e2
    proof -
      from g r have "getCachedSearch (db_read_throws e2) (db st') q = Some ?c" by simp
      with assms(1) nr have "api_search e2 st' (Some q) = partial_refresh e2 st' q ?c"
        by (simp add: api_search_def)
      then show ?thesis
        by (simp only: invoked_partial_refresh z) simp
    qed
    with g show ?thesis by blast
  qed
  from rep c d u show ?thesis by blast
qed

theorem all_sources_fail_witness:
  "''stand'' \<noteq> [] \<and>
   fetched (env_nothing 0) Thingiverse ''stand'' = [] \<and>
   fetched (env_nothing 0) Printables ''stand'' = [] \<and>
   fetched (env_nothing 0) MakerWorld ''stand'' = [] \<and>
   search (env_nothing 0) MakerWorld ''stand'' = Rejected \<and>
   \<not> db_write_throws (env_nothing 0) \<and> \<not> db_read_throws (env_up 5) \<and>
   (\<exists>st' evs. api_search (env_nothing 0) state0 (Some ''stand'')
        = (Json (no_results ''stand''), st', evs) \<and>
      invoked evs = [Thingiverse, Printables, MakerWorld] \<and>
      cache_get 0 (cache st') (cacheKey ''stand'') = Some (no_results ''stand'') \<and>
      getCachedSearch False (db st') ''stand''
          = Some ((no_results ''stand'')\<lparr>cached := True, cached_at := Some 0\<rparr>) \<and>
      invoked (snd (snd (api_search (env_up 5) st' (Some ''stand''))))
          = [Thingiverse, Printables, MakerWorld]) \<and>
   db_write_throws (env_write_throws 0) \<and>
   (\<exists>evs. api_search (env_write_throws 0) state0 (Some ''stand'')
        = (Json (no_results ''stand''), state3, evs) \<and>
      invoked evs = [Thingiverse, Printables, MakerWorld] \<and>
      fetched (env_write_throws 0) Thingiverse ''stand'' = [] \<and>
      fetched (env_write_throws 0) Printables ''stand'' = [] \<and>
      fetched (env_write_throws 0) MakerWorld ''stand'' = [] \<and>
      db state3 = db state0)"
proof -
  have q: "''stand'' \<noteq> []" by simp
  have f: "fetched (env_nothing 0) Thingiverse ''stand'' = []"
    "fetched (env_nothing 0) Printables ''stand'' = []"
    "fetched (env_nothing 0) MakerWorld ''stand'' = []"
    by (simp_all add: fetched_def env_nothing_def site_blocked_def site_no_match_def eval_defs)
  have r: "search (env_nothing 0) MakerWorld ''stand'' = Rejected"
    by (simp add: env_nothing_def searchMakerWorld_def)
  have w: "\<not> db_write_throws (env_nothing 0)" "\<not> db_read_throws (env_up 5)"
    "now (env_nothing 0) = 0"
    by (simp_all add: env_nothing_def env_up_def)
  obtain rep st' evs where
    a: "api_search (env_nothing 0) state0 (Some ''stand'') = (rep, st', evs)"
    and i: "invoked evs = [Thingiverse, Printables, MakerWorld]"
    by (simp add: env_nothing_def eval_defs)
  from all_sources_fail [OF q a i f] w
  have "rep = Json (no_results ''stand'') \<and>
     cache_get 0 (cache st') (cacheKey ''stand'') = Some (no_results ''stand'') \<and>
     getCachedSearch False (db st') ''stand''
          = Some ((no_results ''stand'')\<lparr>cached := True, cached_at := Some 0\<rparr>) \<and>
     invoked (snd (snd (api_search (env_up 5) st' (Some ''stand''))))
          = [Thingiverse, Printables, MakerWorld]"
    by simp
  with a i have first: "\<exists>st' evs. api_search (env_nothing 0) state0 (Some ''stand'')
        = (Json (no_results ''stand''), st', evs) \<and>
      invoked evs = [Thingiverse, Printables, MakerWorld] \<and>
      cache_get 0 (cache st') (cacheKey ''stand'') = Some (no_results ''stand'') \<and>
      getCachedSearch False (db st') ''stand''
          = Some ((no_results ''stand'')\<lparr>cached := True, cached_at := Some 0\<rparr>) \<and>
      invoked (snd (snd (api_search (env_up 5) st' (Some ''stand''))))
          = [Thingiverse, Printables, MakerWorld]"
    by blast
  have wt: "db_write_throws (env_write_throws 0)"
    by (simp add: env_write_throws_def)
  have f2: "fetched (env_write_throws 0) Thingiverse ''stand'' = []"
    "fetched (env_write_throws 0) Printables ''stand'' = []"
    "fetched (env_write_throws 0) MakerWorld ''stand'' = []"
    by (simp_all add: fetched_def env_write_throws_def env_all_down_def eval_defs)
  obtain rep2 evs2 where
    a2: "api_search (env_write_throws 0) state0 (Some ''stand'') = (rep2, state3, evs2)"
    and i2: "invoked evs2 = [Thingiverse, Printables, MakerWorld]"
    by (simp add: state3_def env_write_throws_def env_all_down_def eval_defs)
  from all_sources_fail [OF q a2 i2 f2] wt
  have "rep2 = Json (no_results ''stand'') \<and> db state3 = db state0"
    by blast
  with a2 i2 f2 have second: "\<exists>evs. api_search (env_write_throws 0) state0 (Some ''stand'')
        = (Json (no_results ''stand''), state3, evs) \<and>
      invoked evs = [Thingiverse, Printables, MakerWorld] \<and>
      fetched (env_write_throws 0) Thingiverse ''stand'' = [] \<and>
      fetched (env_write_throws 0) Printables ''stand'' = [] \<and>
      fetched (env_write_throws 0) MakerWorld ''stand'' = [] \<and>
      db state3 = db state0"
    by blast
  from q f r w(1,2) first wt second show ?thesis by blast
qed

section \<open>The query as cache key\<close>

lemma store_frame:
  "q2 \<noteq> q1 \<Longrightarrow> db (store e st q1 v) q2 = db st q2 \<and>
     cache (store e st q1 v) (cacheKey q2) = cache st (cacheKey q2)"
  by (simp add: store_def cacheSearch_def cache_set_def cacheKey_def)

lemma api_search_shape:
  assumes "q \<noteq> []" "api_search e st (Some q) = (rep, st', evs)"
  shows "(\<exists>v. rep = Json v) \<and> (st' = st \<or> (\<exists>v. st' = store e st q v)) \<and>
     hd evs = DbGet q \<and> (\<forall>ev\<in>set evs. effect_of q ev)"
  using assms(1)
proof (cases rule: api_search_cases[where e = e and st = st])
  case (db_fresh c)
  with assms(2) show ?thesis by auto
next
  case (db_partial c)
  with assms(2) show ?thesis
    by (auto simp: partial_refresh_eq Let_def)
next
  case (memory v)
  with assms(2) show ?thesis by auto
next
  case full
  with assms(2) show ?thesis
    by (auto simp: full_search_eq Let_def)
qed

text \<open>
  C4, as the specification states it: query texts that differ in casing or surrounding
  white space have the same normalized query and hit the same cache entry. The handler
  has no normalization: after \<open>''stand''\<close> was searched and stored, a request for
  \<open>''Stand ''\<close>, which the normalization of the specification maps to the same text,
  has another cache key, misses both caches and searches all three platforms.
\<close>

theorem normalization_counterexample:
  "reachable server1 \<and>
   spec_normalizedQuery ''Stand '' = spec_normalizedQuery ''stand'' \<and>
   cacheKey ''Stand '' \<noteq> cacheKey ''stand'' \<and>
   getCachedSearch False (db (srv_state server1)) ''stand'' \<noteq> None \<and>
   cache_get 5 (cache (srv_state server1)) (cacheKey ''stand'') \<noteq> None \<and>
   snd (snd (api_search (env_up 5) (srv_state server1) (Some ''stand''))) = [DbGet ''stand''] \<and>
   invoked (snd (snd (api_search (env_up 5) (srv_state server1) (Some ''Stand ''))))
     = [Thingiverse, Printables, MakerWorld]"
proof -
  have "spec_normalizedQuery ''Stand '' = spec_normalizedQuery ''stand''"
    by (simp add: spec_normalizedQuery_def trim_def is_space_def lower_char_def)
  moreover have "cacheKey ''Stand '' \<noteq> cacheKey ''stand'' \<and>
   getCachedSearch False (db state1) ''stand'' \<noteq> None \<and>
   cache_get 5 (cache state1) (cacheKey ''stand'') \<noteq> None \<and>
   snd (snd (api_search (env_up 5) state1 (Some ''stand''))) = [DbGet ''stand''] \<and>
   invoked (snd (snd (api_search (env_up 5) state1 (Some ''Stand ''))))
     = [Thingiverse, Printables, MakerWorld]"
    by (simp add: state1_def eval_defs)
  ultimately show ?thesis using reachable_server1 state_server1 by simp
qed

lemma effect_of_other:
  assumes "effect_of q1 ev" "q2 \<noteq> q1"
  shows "ev \<noteq> DbGet q2 \<and> ev \<noteq> CacheGet (cacheKey q2) \<and> (\<forall>a. ev \<noteq> Invoke a q2) \<and>
         ev \<noteq> CacheSet (cacheKey q2) \<and> ev \<noteq> DbPut q2"
  using assms by (cases ev) (auto simp: cacheKey_def)

text \<open>
  C4, amended. The query text is the key of both caches as it is: two texts have the same
  cache key exactly when they are the same string. Every effect of a request for a text is
  a call of the table or of a scraper with that text, or a call of the memory cache with
  the cache key of that text; so for every other text, the request reads neither its row
  nor its memory entry, calls no scraper with it, writes neither its row nor its memory
  entry, and leaves both as they were.
\<close>

theorem verbatim_cache_key:
  assumes "q1 \<noteq> []" "api_search e st (Some q1) = (rep, st', evs)"
  shows "(cacheKey q1 = cacheKey q2) = (q1 = q2) \<and>
     (\<forall>ev\<in>set evs. effect_of q1 ev) \<and>
     (q2 \<noteq> q1 \<longrightarrow>
        DbGet q2 \<notin> set evs \<and> CacheGet (cacheKey q2) \<notin> set evs \<and>
        (\<forall>a. Invoke a q2 \<notin> set evs) \<and>
        CacheSet (cacheKey q2) \<notin> set evs \<and> DbPut q2 \<notin> set evs \<and>
        db st' q2 = db st q2 \<and> cache st' (cacheKey q2) = cache st (cacheKey q2))"
proof -
  have k: "(cacheKey q1 = cacheKey q2) = (q1 = q2)" by (simp add: cacheKey_def)
  from api_search_shape[OF assms]
  have s: "st' = st \<or> (\<exists>v. st' = store e st q1 v)"
    and ev: "\<forall>ev\<in>set evs. effect_of q1 ev"
    by blast+
  have f: "db st' q2 = db st q2 \<and> cache st' (cacheKey q2) = cache st (cacheKey q2)"
    if "q2 \<noteq> q1"
    using s that store_frame[OF that] by auto
  have n: "DbGet q2 \<notin> set evs \<and> CacheGet (cacheKey q2) \<notin> set evs \<and>
        (\<forall>a. Invoke a q2 \<notin> set evs) \<and>
        CacheSet (cacheKey q2) \<notin> set evs \<and> DbPut q2 \<notin> set evs"
    if "q2 \<noteq> q1"
    using ev effect_of_other[OF _ that] by blast
  from k ev f n show ?thesis by blast
qed

theorem verbatim_cache_key_witness:
  "''Stand '' \<noteq> [] \<and>
   (\<exists>rep st' evs. api_search (env_up 5) state1 (Some ''Stand '') = (rep, st', evs) \<and>
      cacheKey ''Stand '' \<noteq> cacheKey ''stand'' \<and>
      evs = [DbGet ''Stand '', CacheGet ''search_Stand '', Invoke Thingiverse ''Stand '',
             Invoke Printables ''Stand '', Invoke MakerWorld ''Stand '',
             CacheSet ''search_Stand '', DbPut ''Stand ''] \<and>
      ''stand'' \<noteq> ''Stand '' \<and>
      DbGet ''stand'' \<notin> set evs \<and> CacheGet (cacheKey ''stand'') \<notin> set evs \<and>
      Invoke Printables ''stand'' \<notin> set evs \<and>
      CacheSet (cacheKey ''stand'') \<notin> set evs \<and> DbPut ''stand'' \<notin> set evs \<and>
      db st' ''stand'' = db state1 ''stand'' \<and>
      cache st' (cacheKey ''stand'') = cache state1 (cacheKey ''stand''))"
proof -
  have q: "''Stand '' \<noteq> []" and n: "''stand'' \<noteq> ''Stand ''" by simp_all
  obtain rep st' evs where a: "api_search (env_up 5) state1 (Some ''Stand '') = (rep, st', evs)"
    and evs: "evs = [DbGet ''Stand '', CacheGet ''search_Stand '', Invoke Thingiverse ''Stand '',
             Invoke Printables ''Stand '', Invoke MakerWorld ''Stand '',
             CacheSet ''search_Stand '', DbPut ''Stand '']"
    by (simp add: state1_def eval_defs)
  from verbatim_cache_key [OF q a, of "''stand''"] n
  have "cacheKey ''Stand '' \<noteq> cacheKey ''stand'' \<and>
      DbGet ''stand'' \<notin> set evs \<and> CacheGet (cacheKey ''stand'') \<notin> set evs \<and>
      Invoke Printables ''stand'' \<notin> set evs \<and>
      CacheSet (cacheKey ''stand'') \<notin> set evs \<and> DbPut ''stand'' \<notin> set evs \<and>
      db st' ''stand'' = db state1 ''stand'' \<and>
      cache st' (cacheKey ''stand'') = cache state1 (cacheKey ''stand'')"
    by blast
  with q n a evs show ?thesis by blast
qed

section \<open>The order of the two caches\<close>

text \<open>
  C3, as the specification states it: the memory cache is consulted first, a memory hit
  bypasses the table and all searching, and a hit in the table with positive counts
  populates the memory cache. The handler reads the table first. On \<open>server2\<close> the
  memory cache holds an entry for the query that has not expired and the row has a count
  of 0: the request reads the table and searches Printables. On \<open>server1_restarted\<close> the
  row has positive counts and the memory cache is empty: the request returns the row and
  the memory cache is still empty afterwards.
\<close>

theorem memory_first_counterexample:
  "reachable server2 \<and>
   cache_get (now (env_up 5)) (cache (srv_state server2)) (cacheKey ''stand'') \<noteq> None \<and>
   snd (snd (api_search (env_up 5) (srv_state server2) (Some ''stand'')))
     = [DbGet ''stand'', Invoke Printables ''stand'', CacheSet (cacheKey ''stand''),
        DbPut ''stand''] \<and>
   reachable server1_restarted \<and>
   getCachedSearch False (db (srv_state server1_restarted)) ''stand'' \<noteq> None \<and>
   snd (snd (api_search (env_up 5) (srv_state server1_restarted) (Some ''stand'')))
     = [DbGet ''stand''] \<and>
   cache (fst (snd (api_search (env_up 5) (srv_state server1_restarted) (Some ''stand''))))
     (cacheKey ''stand'') = None"
proof -
  have r: "reachable server1_restarted"
    unfolding server1_restarted_def by (intro reachable.after_step reachable_server1)
  have s: "srv_state server1_restarted = state1_restarted"
    by (simp add: server1_restarted_def state1_restarted_def state_server1)
  have "cache_get (now (env_up 5)) (cache state2) (cacheKey ''stand'') \<noteq> None \<and>
   snd (snd (api_search (env_up 5) state2 (Some ''stand'')))
     = [DbGet ''stand'', Invoke Printables ''stand'', CacheSet (cacheKey ''stand''),
        DbPut ''stand''] \<and>
   getCachedSearch False (db state1_restarted) ''stand'' \<noteq> None \<and>
   snd (snd (api_search (env_up 5) state1_restarted (Some ''stand''))) = [DbGet ''stand''] \<and>
   cache (fst (snd (api_search (env_up 5) state1_restarted (Some ''stand''))))
     (cacheKey ''stand'') = None"
    by (simp add: state2_def state1_restarted_def state1_def cleanOldSearches_def
        env_printables_down_def eval_defs)
  with r s reachable_server2 state_server2 show ?thesis by simp
qed

text \<open>
  C3, amended. The first effect of every request with a non-empty query is the read of
  the table. When the table gives a row, the memory cache is not read: with all counts
  positive the row is the reply and neither cache is written; with a count of 0 the
  platforms with a count of 0 are searched. Only when the table gives no row is the
  memory cache read; an entry that has not expired is the reply, with no search and no
  write, and otherwise all three platforms are searched.
\<close>

theorem persistent_cache_first:
  assumes "q \<noteq> []" "api_search e st (Some q) = (rep, st', evs)"
  shows "hd evs = DbGet q \<and>
    (case getCachedSearch (db_read_throws e) (db st) q of
       Some c \<Rightarrow>
         CacheGet (cacheKey q) \<notin> set evs \<and>
         (if needsRefresh c
          then invoked evs = filter (\<lambda>a. count_of (sources c) a = 0)
                               [Thingiverse, Printables, MakerWorld] \<and>
               invoked evs \<noteq> []
          else rep = Json c \<and> st' = st \<and> evs = [DbGet q])
     | None \<Rightarrow>
         take 2 evs = [DbGet q, CacheGet (cacheKey q)] \<and>
         (case cache_get (now e) (cache st) (cacheKey q) of
            Some v \<Rightarrow> rep = Json v \<and> st' = st \<and> evs = [DbGet q, CacheGet (cacheKey q)]
          | None \<Rightarrow> invoked evs = [Thingiverse, Printables, MakerWorld]))"
  using assms(1)
proof (cases rule: api_search_cases[where e = e and st = st])
  case (db_fresh c)
  with assms(2) show ?thesis by auto
next
  case (db_partial c)
  let ?zs = "filter (\<lambda>a. count_of (sources c) a = 0) [Thingiverse, Printables, MakerWorld]"
  from db_partial(3) assms(2)
  have evs: "evs = [DbGet q] @ map (\<lambda>a. Invoke a q) ?zs @ [CacheSet (cacheKey q), DbPut q]"
    by (simp only: partial_refresh_eq Let_def) simp
  then have i: "invoked evs = ?zs"
    by (simp only: invoked_append invoked_map_Invoke) simp
  from db_partial(2) obtain a where "count_of (sources c) a = 0"
    unfolding needsRefresh_iff ..
  then have "a \<in> set ?zs" by (cases a) simp_all
  then have ne: "?zs \<noteq> []" by (metis empty_iff empty_set)
  have h: "hd evs = DbGet q" and m: "CacheGet (cacheKey q) \<notin> set evs"
    unfolding evs by auto
  from db_partial(1,2) h m i ne show ?thesis by simp
next
  case (memory v)
  with assms(2) show ?thesis by auto
next
  case full
  with assms(2) show ?thesis
    by (auto simp: full_search_eq Let_def)
qed

theorem persistent_cache_first_witness:
  "''stand'' \<noteq> [] \<and>
   (\<exists>rep st' evs c. api_search (env_up 5) state2 (Some ''stand'') = (rep, st', evs) \<and>
      cache_get (now (env_up 5)) (cache state2) (cacheKey ''stand'') \<noteq> None \<and>
      getCachedSearch (db_read_throws (env_up 5)) (db state2) ''stand'' = Some c \<and>
      needsRefresh c \<and>
      hd evs = DbGet ''stand'' \<and> CacheGet (cacheKey ''stand'') \<notin> set evs \<and>
      invoked evs = [Printables])"
proof -
  have q: "''stand'' \<noteq> []" by simp
  obtain c where c: "getCachedSearch (db_read_throws (env_up 5)) (db state2) ''stand'' = Some c"
    and s: "sources c = \<lparr>thingiverse = 2, printables = 0, makerworld = 2\<rparr>"
    by (simp add: state2_def env_printables_down_def eval_defs)
  from s have nr: "needsRefresh c" by (simp add: needsRefresh_def)
  have m: "cache_get (now (env_up 5)) (cache state2) (cacheKey ''stand'') \<noteq> None"
    by (simp add: state2_def env_printables_down_def eval_defs)
  obtain rep st' evs where a: "api_search (env_up 5) state2 (Some ''stand'') = (rep, st', evs)"
    by (cases "api_search (env_up 5) state2 (Some ''stand'')") blast
  from persistent_cache_first [OF q a] c nr s
  have "hd evs = DbGet ''stand'' \<and> CacheGet (cacheKey ''stand'') \<notin> set evs \<and>
      invoked evs = [Printables]"
    by simp
  with q a m c nr show ?thesis by blast
qed

section \<open>Queries of white space\<close>

lemma whitespace_only_nonempty: "whitespace_only q \<Longrightarrow> q \<noteq> []"
  by (simp add: whitespace_only_def)

text \<open>
  C10. A query that consists of white space only is not rejected: the reply is a
  response, the table is read with the text as it is, and when both caches miss all three
  scrapers are called with it and the result is stored under it. Its cache key is
  \<open>''search_''\<close> followed by the text, and no other text has this key.
\<close>

theorem whitespace_query_accepted:
  assumes "whitespace_only q" "api_search e st (Some q) = (rep, st', evs)"
  shows "(\<exists>v. rep = Json v) \<and> hd evs = DbGet q \<and>
     (getCachedSearch (db_read_throws e) (db st) q = None \<longrightarrow>
        take 2 evs = [DbGet q, CacheGet (cacheKey q)] \<and>
        (cache_get (now e) (cache st) (cacheKey q) = None \<longrightarrow>
           evs = [DbGet q, CacheGet (cacheKey q),
                  Invoke Thingiverse q, Invoke Printables q, Invoke MakerWorld q,
                  CacheSet (cacheKey q), DbPut q] \<and>
           (\<exists>v. st' = store e st q v \<and> query v = q))) \<and>
     cacheKey q = ''search_'' @ q \<and>
     (\<forall>q'. (cacheKey q' = cacheKey q) = (q' = q))"
proof -
  from assms(1) have q: "q \<noteq> []" by (rule whitespace_only_nonempty)
  have k: "cacheKey q = ''search_'' @ q \<and> (\<forall>q'. (cacheKey q' = cacheKey q) = (q' = q))"
    by (simp add: cacheKey_def)
  from api_search_shape[OF q assms(2)] have r: "\<exists>v. rep = Json v" and h: "hd evs = DbGet q"
    by blast+
  have d: "take 2 evs = [DbGet q, CacheGet (cacheKey q)] \<and>
        (cache_get (now e) (cache st) (cacheKey q) = None \<longrightarrow>
           evs = [DbGet q, CacheGet (cacheKey q),
                  Invoke Thingiverse q, Invoke Printables q, Invoke MakerWorld q,
                  CacheSet (cacheKey q), DbPut q] \<and>
           (\<exists>v. st' = store e st q v \<and> query v = q))"
    if n: "getCachedSearch (db_read_throws e) (db st) q = None"
  proof (cases "cache_get (now e) (cache st) (cacheKey q)")
    case None
    with q n have "api_search e st (Some q) = full_search e st q" by (rule api_search_full)
    with assms(2) None show ?thesis
      by (auto simp: full_search_eq Let_def build_response_def)
  next
    case (Some v)
    with q n have "api_search e st (Some q) = (Json v, st, [DbGet q, CacheGet (cacheKey q)])"
      by (rule api_search_memory_hit)
    with assms(2) Some show ?thesis by auto
  qed
  from r h d k show ?thesis by blast
qed

theorem whitespace_query_accepted_witness:
  "whitespace_only '' '' \<and>
   (\<exists>v st'. api_search (env_up 0) state0 (Some '' '')
       = (Json v, st',
          [DbGet '' '', CacheGet ''search_ '', Invoke Thingiverse '' '',
           Invoke Printables '' '', Invoke MakerWorld '' '', CacheSet ''search_ '',
           DbPut '' '']) \<and>
      db st' '' '' \<noteq> None \<and> db st' ''  '' = None \<and>
      cacheKey ''  '' \<noteq> cacheKey '' '')"
proof -
  have w: "whitespace_only '' ''" by (simp add: whitespace_only_def is_space_def)
  obtain rep st' evs where a: "api_search (env_up 0) state0 (Some '' '') = (rep, st', evs)"
    and d: "db st' '' '' \<noteq> None" "db st' ''  '' = None"
    by (simp add: eval_defs)
  have n: "getCachedSearch (db_read_throws (env_up 0)) (db state0) '' '' = None"
    "cache_get (now (env_up 0)) (cache state0) (cacheKey '' '') = None"
    by (simp_all add: eval_defs)
  note t = whitespace_query_accepted [OF w a]
  from t obtain v where r: "rep = Json v" by blast
  from t n have evs: "evs = [DbGet '' '', CacheGet (cacheKey '' ''),
                  Invoke Thingiverse '' '', Invoke Printables '' '', Invoke MakerWorld '' '',
                  CacheSet (cacheKey '' ''), DbPut '' '']"
    by blast
  from t have "(cacheKey ''  '' = cacheKey '' '') = (''  '' = '' '')" by blast
  then have k: "cacheKey ''  '' \<noteq> cacheKey '' ''" by simp
  have c: "cacheKey '' '' = ''search_ ''" by (simp add: cacheKey_def)
  from a r evs c have "api_search (env_up 0) state0 (Some '' '')
       = (Json v, st',
          [DbGet '' '', CacheGet ''search_ '', Invoke Thingiverse '' '',
           Invoke Printables '' '', Invoke MakerWorld '' '', CacheSet ''search_ '',
           DbPut '' ''])"
    by simp
  with w d k show ?thesis by blast
qed

section \<open>Requests in flight at the same time\<close>

text \<open>
  The handler is its first part followed by its second part, and a request that arrives
  and settles with no other step in between does to the server what the handler does.
\<close>

lemma api_search_split:
  "api_search e st req_q =
     (case api_search_begin e st req_q of
        (Inl r, evs) \<Rightarrow> (r, st, evs)
      | (Inr p, evs) \<Rightarrow>
          (case api_search_resume e st p of (r, st', evs') \<Rightarrow> (r, st', evs @ evs')))"
  by (simp add: api_search_def api_search_begin_def partial_refresh_def full_search_def
      settle_def fulfilled_or_empty_Fulfilled Let_def split: option.splits)

lemma sequential_request:
  assumes "map_of (waiting s) i = None" "api_search e (srv_state s) req_q = (r, st', evs)"
  shows "step (Settle i e) (step (Arrive i e req_q) s) =
           s\<lparr>srv_state := st', replies := replies s @ [(i, r)], effects := effects s @ evs\<rparr>"
proof (cases "api_search_begin e (srv_state s) req_q")
  case (Pair x evs0)
  show ?thesis
  proof (cases x)
    case (Inl r0)
    with Pair assms show ?thesis
      by (simp add: api_search_split)
  next
    case (Inr p)
    obtain r1 st1 evs1 where res: "api_search_resume e (srv_state s) p = (r1, st1, evs1)"
      by (cases "api_search_resume e (srv_state s) p") blast
    from assms(1) have "fst w \<noteq> i" if "w \<in> set (waiting s)" for w
      using that by (metis map_of_eq_None_iff image_eqI)
    then have f: "filter (\<lambda>w. fst w \<noteq> i) (waiting s) = waiting s"
      by (simp add: filter_id_conv)
    from Pair Inr res assms f show ?thesis
      by (simp add: api_search_split map_add_def)
  qed
qed

lemma begin_miss:
  assumes "q \<noteq> []" "getCachedSearch (db_read_throws e) (db st) q = None"
    "cache_get (now e) (cache st) (cacheKey q) = None"
  shows "api_search_begin e st (Some q) =
     (Inr (Pending q Search Search Search),
      [DbGet q, CacheGet (cacheKey q),
       Invoke Thingiverse q, Invoke Printables q, Invoke MakerWorld q])"
  using assms by (simp add: api_search_begin_def)

lemma resume_full:
  "api_search_resume e st (Pending q Search Search Search) =
     (Json (build_response q (fetched e Thingiverse q) (fetched e Printables q)
              (fetched e MakerWorld q)),
      store e st q (build_response q (fetched e Thingiverse q) (fetched e Printables q)
              (fetched e MakerWorld q)),
      [CacheSet (cacheKey q), DbPut q])"
  by (simp add: settle_def fetched_def Let_def)

lemma run_actions_Cons: "run_actions (a # as) s = run_actions as (step a s)"
  by (simp add: run_actions_def)

lemma run_actions_Nil: "run_actions [] s = s"
  by (simp add: run_actions_def)

lemma arrivals_run:
  assumes "q \<noteq> []"
    and "\<forall>e\<in>set es. getCachedSearch (db_read_throws e) (db (srv_state s)) q = None \<and>
           cache_get (now e) (cache (srv_state s)) (cacheKey q) = None"
  shows "run_actions (arrivals i es q) s =
     s\<lparr>waiting := waiting s @ map (\<lambda>j. (j, Pending q Search Search Search)) [i..<i + length es],
       effects := effects s @ concat (map (\<lambda>e. [DbGet q, CacheGet (cacheKey q),
           Invoke Thingiverse q, Invoke Printables q, Invoke MakerWorld q]) es)\<rparr>"
  using assms(2)
proof (induction es arbitrary: i s)
  case Nil
  show ?case by (simp add: run_actions_Nil)
next
  case (Cons e es)
  let ?s = "s\<lparr>waiting := waiting s @ [(i, Pending q Search Search Search)],
       effects := effects s @ [DbGet q, CacheGet (cacheKey q),
           Invoke Thingiverse q, Invoke Printables q, Invoke MakerWorld q]\<rparr>"
  from Cons.prems have "api_search_begin e (srv_state s) (Some q) =
     (Inr (Pending q Search Search Search),
      [DbGet q, CacheGet (cacheKey q),
       Invoke Thingiverse q, Invoke Printables q, Invoke MakerWorld q])"
    by (intro begin_miss assms(1)) simp_all
  then have st: "step (Arrive i e (Some q)) s = ?s" by simp
  from Cons.prems have "\<forall>e\<in>set es.
      getCachedSearch (db_read_throws e) (db (srv_state ?s)) q = None \<and>
      cache_get (now e) (cache (srv_state ?s)) (cacheKey q) = None"
    by simp
  then have ih: "run_actions (arrivals (Suc i) es q) ?s =
     ?s\<lparr>waiting := waiting ?s
          @ map (\<lambda>j. (j, Pending q Search Search Search)) [Suc i..<Suc i + length es],
       effects := effects ?s @ concat (map (\<lambda>e. [DbGet q, CacheGet (cacheKey q),
           Invoke Thingiverse q, Invoke Printables q, Invoke MakerWorld q]) es)\<rparr>"
    by (rule Cons.IH)
  have u: "[i..<i + length (e # es)] = i # [Suc i..<Suc i + length es]"
    by (simp add: upt_conv_Cons del: upt_Suc)
  have "run_actions (arrivals i (e # es) q) s = run_actions (arrivals (Suc i) es q) ?s"
    by (simp only: arrivals.simps run_actions_Cons st)
  also note ih
  finally show ?case
    unfolding u by simp
qed

lemma invoked_arrivals:
  "invoked (concat (map (\<lambda>e. [DbGet q, CacheGet k,
           Invoke Thingiverse q, Invoke Printables q, Invoke MakerWorld q]) es))
   = concat (replicate (length es) [Thingiverse, Printables, MakerWorld])"
  by (induction es) simp_all

lemma map_of_waiting:
  "i < n \<Longrightarrow> map_of (map (\<lambda>j. (j, p)) [0..<n]) i = Some p"
  by (simp add: map_of_map_restrict)

text \<open>
  C2, as the specification states it: of several requests in flight for the same uncached
  query, one starts the searches and all receive the same result. The handler keeps no
  record of the requests in flight. Two requests for \<open>''stand''\<close> arrive before either
  settles: each calls all three scrapers, and they receive different replies when the
  scrapers meet different pages.
\<close>

theorem single_flight_counterexample:
  "getCachedSearch False (db (srv_state server0)) ''stand'' = None \<and>
   cache_get 0 (cache (srv_state server0)) (cacheKey ''stand'') = None \<and>
   invoked (effects (run_actions concurrent_pair server0))
     = [Thingiverse, Printables, MakerWorld, Thingiverse, Printables, MakerWorld] \<and>
   map_of (replies (run_actions concurrent_pair server0)) 0
     \<noteq> map_of (replies (run_actions concurrent_pair server0)) 1"
  by (simp add: concurrent_pair_def run_actions_def server0_def api_search_begin_def settle_def
      env_makerworld_rejects_def eval_defs)

text \<open>
  C2, amended. When \<open>n\<close> requests for the same uncached query arrive before any of them
  settles, each of them calls the three scrapers (\<open>3 * n\<close> calls), none of them changes a
  cache or is answered on arrival, and each waits for its own searches; a waiting request
  is answered with the merge of what its own scraper calls delivered.
\<close>

theorem concurrent_requests_fetch_each:
  assumes "q \<noteq> []" "waiting s = []"
    and "\<forall>e\<in>set es. getCachedSearch (db_read_throws e) (db (srv_state s)) q = None \<and>
           cache_get (now e) (cache (srv_state s)) (cacheKey q) = None"
  shows "srv_state (run_actions (arrivals 0 es q) s) = srv_state s \<and>
     replies (run_actions (arrivals 0 es q) s) = replies s \<and>
     invoked (effects (run_actions (arrivals 0 es q) s))
       = invoked (effects s) @ concat (replicate (length es) [Thingiverse, Printables, MakerWorld]) \<and>
     (\<forall>i<length es.
        map_of (waiting (run_actions (arrivals 0 es q) s)) i
          = Some (Pending q Search Search Search)) \<and>
     (\<forall>s' i e'. map_of (waiting s') i = Some (Pending q Search Search Search) \<longrightarrow>
        replies (step (Settle i e') s')
          = replies s' @ [(i, Json (build_response q (fetched e' Thingiverse q)
                                     (fetched e' Printables q) (fetched e' MakerWorld q)))])"
proof -
  let ?s = "run_actions (arrivals 0 es q) s"
  note r = arrivals_run[OF assms(1,3), of 0]
  have a: "srv_state ?s = srv_state s" "replies ?s = replies s"
    unfolding r by simp_all
  have b: "invoked (effects ?s)
       = invoked (effects s) @ concat (replicate (length es) [Thingiverse, Printables, MakerWorld])"
    unfolding r by (simp add: invoked_append invoked_arrivals)
  have c: "map_of (waiting ?s) i = Some (Pending q Search Search Search)" if "i < length es" for i
    unfolding r using that assms(2) by (simp add: map_of_waiting)
  have d: "replies (step (Settle i e') s')
          = replies s' @ [(i, Json (build_response q (fetched e' Thingiverse q)
                                     (fetched e' Printables q) (fetched e' MakerWorld q)))]"
    if "map_of (waiting s') i = Some (Pending q Search Search Search)" for s' i e'
    using that by (simp add: resume_full del: api_search_resume.simps)
  from a b c d show ?thesis by blast
qed

theorem concurrent_requests_fetch_each_witness:
  "''stand'' \<noteq> [] \<and> waiting server0 = [] \<and>
   getCachedSearch (db_read_throws (env_up 0)) (db (srv_state server0)) ''stand'' = None \<and>
   cache_get (now (env_up 0)) (cache (srv_state server0)) (cacheKey ''stand'') = None \<and>
   getCachedSearch (db_read_throws (env_up 1)) (db (srv_state server0)) ''stand'' = None \<and>
   cache_get (now (env_up 1)) (cache (srv_state server0)) (cacheKey ''stand'') = None \<and>
   invoked (effects (run_actions (arrivals 0 [env_up 0, env_up 1] ''stand'') server0))
     = [Thingiverse, Printables, MakerWorld, Thingiverse, Printables, MakerWorld] \<and>
   map_of (waiting (run_actions (arrivals 0 [env_up 0, env_up 1] ''stand'') server0)) 1
     = Some (Pending ''stand'' Search Search Search) \<and>
   replies (step (Settle 1 (env_makerworld_rejects 9))
       (run_actions (arrivals 0 [env_up 0, env_up 1] ''stand'') server0))
     = [(1, Json (build_response ''stand''
                   (fetched (env_makerworld_rejects 9) Thingiverse ''stand'')
                   (fetched (env_makerworld_rejects 9) Printables ''stand'')
                   (fetched (env_makerworld_rejects 9) MakerWorld ''stand'')))]"
proof -
  have q: "''stand'' \<noteq> []" by simp
  have w: "waiting server0 = []" "replies server0 = []" "effects server0 = []"
    by (simp_all add: server0_def)
  have m0: "getCachedSearch (db_read_throws (env_up 0)) (db (srv_state server0)) ''stand'' = None"
    "cache_get (now (env_up 0)) (cache (srv_state server0)) (cacheKey ''stand'') = None"
    "getCachedSearch (db_read_throws (env_up 1)) (db (srv_state server0)) ''stand'' = None"
    "cache_get (now (env_up 1)) (cache (srv_state server0)) (cacheKey ''stand'') = None"
    by (simp_all add: server0_def eval_defs)
  then have m: "\<forall>e\<in>set [env_up 0, env_up 1].
      getCachedSearch (db_read_throws e) (db (srv_state server0)) ''stand'' = None \<and>
      cache_get (now e) (cache (srv_state server0)) (cacheKey ''stand'') = None"
    by simp
  let ?s = "run_actions (arrivals 0 [env_up 0, env_up 1] ''stand'') server0"
  note t = concurrent_requests_fetch_each [OF q w(1) m]
  from t have r: "replies ?s = []" using w(2) by simp
  from t have i: "invoked (effects ?s)
     = [Thingiverse, Printables, MakerWorld, Thingiverse, Printables, MakerWorld]"
    using w(3) by (simp add: numeral_2_eq_2)
  from t have p: "map_of (waiting ?s) 1 = Some (Pending ''stand'' Search Search Search)"
    by simp
  from t p r have "replies (step (Settle 1 (env_makerworld_rejects 9)) ?s)
     = [(1, Json (build_response ''stand''
                   (fetched (env_makerworld_rejects 9) Thingiverse ''stand'')
                   (fetched (env_makerworld_rejects 9) Printables ''stand'')
                   (fetched (env_makerworld_rejects 9) MakerWorld ''stand'')))]"
    by (metis append_Nil)
  with q w(1) m0 i p show ?thesis by blast
qed

end
